theory Spec2Isabelle
  imports Main "HOL-Library.Word"
begin

unbundle bit_operations_syntax

section \<open>The CHIP-8 machine of main.cc\<close>

text \<open>
  The repository holds the interpreter twice: \<^verbatim>\<open>Chip8::executeCycle\<close> of main.cc and
  \<^verbatim>\<open>chip8_t_emulate_cycle\<close> of main.c run the same statements in the same order, on
  different data. In main.cc, modelled in this section, the memory, the registers, the
  stack, the display and the keys are separate members of \<^verbatim>\<open>class Chip8\<close>. In main.c,
  modelled in the next section, they are one union, and the registers, the stack, the
  display and the keys are bytes of \<^verbatim>\<open>memory\<close>.

  Arrays are functions from an index to a value. C does not check an index: every
  access whose index can leave the array is guarded here, and an access outside the
  array (undefined behaviour in C) ends the cycle with the fault \<open>OutOfBounds\<close>.
  The value of \<^verbatim>\<open>rand()\<close> is a parameter of the cycle.
\<close>

type_synonym u8 = "8 word"

type_synonym u16 = "16 word"

record chip8 =
  V :: "nat \<Rightarrow> u8"
  DT :: u8
  ST :: u8
  SP :: u8
  I :: u16
  stack :: "nat \<Rightarrow> u16"
  keys :: "nat \<Rightarrow> bool"
  memory :: "nat \<Rightarrow> u8"
  PC :: u16
  display :: "nat \<Rightarrow> u8"
  draw :: bool

datatype fault = OutOfBounds

text \<open>How the if-chain of \<^verbatim>\<open>executeCycle\<close> is left: by falling through to the timer
  update at the end of the function, or by the \<^verbatim>\<open>return\<close> inside the Fx0A branch.\<close>

datatype flow = Fallthrough chip8 | Returned chip8

definition MEM_NBYTES :: nat where
  "MEM_NBYTES = 4096"

subsection \<open>Fetch and decode\<close>

text \<open>\<^verbatim>\<open>instruction = (memory[PC] << 8) | memory[PC + 1]\<close>; \<^verbatim>\<open>PC + 1\<close> is computed in
  \<^verbatim>\<open>int\<close> and does not wrap.\<close>

definition fetch :: "chip8 \<Rightarrow> fault + u16" where
  "fetch s =
     (if unat (PC s) + 1 < MEM_NBYTES
      then Inr (push_bit 8 (ucast (memory s (unat (PC s)))) OR ucast (memory s (unat (PC s) + 1)))
      else Inl OutOfBounds)"

definition op_of :: "u16 \<Rightarrow> u8" where
  "op_of instruction = ucast (drop_bit 12 (instruction AND 0xF000))"

definition x_of :: "u16 \<Rightarrow> u8" where
  "x_of instruction = ucast (drop_bit 8 (instruction AND 0x0F00))"

definition y_of :: "u16 \<Rightarrow> u8" where
  "y_of instruction = ucast (drop_bit 4 (instruction AND 0x00F0))"

definition nnn_of :: "u16 \<Rightarrow> u16" where
  "nnn_of instruction = instruction AND 0x0FFF"

definition kk_of :: "u16 \<Rightarrow> u8" where
  "kk_of instruction = ucast (instruction AND 0x00FF)"

definition n_of :: "u16 \<Rightarrow> u8" where
  "n_of instruction = ucast (instruction AND 0x000F)"

subsection \<open>The sprite loops of Dxyn\<close>

text \<open>The body of the inner loop, for one \<^verbatim>\<open>offsetCol\<close>: one bit of the sprite byte is
  XORed into the packed display, and VF collects the pixels that went from on to off.\<close>

definition draw_bit :: "u8 \<Rightarrow> nat \<Rightarrow> nat \<Rightarrow> nat \<Rightarrow> chip8 \<Rightarrow> chip8" where
  "draw_bit nthByte pxRow startCol offsetCol s =
     (let byteShamt = 7 - offsetCol;
          bytePxVal = drop_bit byteShamt (nthByte AND push_bit byteShamt 1);
          pxCol = (startCol + offsetCol) mod 64;
          bitIndex = pxRow * 64 + pxCol;
          byteIndex = bitIndex div 8;
          dispShamt = 7 - bitIndex mod 8;
          originalPxVal = (drop_bit dispShamt (display s byteIndex AND push_bit dispShamt 1) \<noteq> 0);
          newPxVal = (originalPxVal \<noteq> (bytePxVal \<noteq> 0));
          s1 = s\<lparr>display := (display s)(byteIndex := display s byteIndex XOR push_bit dispShamt bytePxVal)\<rparr>
      in s1\<lparr>V := (V s1)(15 := V s1 15 OR (if originalPxVal \<and> \<not> newPxVal then 1 else 0))\<rparr>)"

text \<open>The inner loop, \<^verbatim>\<open>for (offsetCol = 0; offsetCol < 8; offsetCol++)\<close>.\<close>

definition draw_byte :: "u8 \<Rightarrow> nat \<Rightarrow> nat \<Rightarrow> chip8 \<Rightarrow> chip8" where
  "draw_byte nthByte pxRow startCol s = fold (draw_bit nthByte pxRow startCol) [0..<8] s"

text \<open>The outer loop over the \<^verbatim>\<open>offsetRow\<close>s still to do; it reads
  \<^verbatim>\<open>memory[I + offsetRow]\<close> at the start of each round.\<close>

fun draw_rows :: "nat \<Rightarrow> nat \<Rightarrow> nat list \<Rightarrow> chip8 \<Rightarrow> fault + chip8" where
  "draw_rows startCol startRow [] s = Inr s"
| "draw_rows startCol startRow (offsetRow # rest) s =
     (if unat (I s) + offsetRow < MEM_NBYTES
      then draw_rows startCol startRow rest
             (draw_byte (memory s (unat (I s) + offsetRow)) ((startRow + offsetRow) mod 32) startCol s)
      else Inl OutOfBounds)"

subsection \<open>The key scan of Fx0A\<close>

text \<open>One round of \<^verbatim>\<open>keyPressed = keyPressed || keys[i]; V[x] = keyPressed ? i : V[x]\<close>.\<close>

definition scan_key :: "nat \<Rightarrow> nat \<Rightarrow> bool \<times> chip8 \<Rightarrow> bool \<times> chip8" where
  "scan_key x i ks =
     (let keyPressed = (fst ks \<or> keys (snd ks) i);
          s = snd ks
      in (keyPressed, s\<lparr>V := (V s)(x := (if keyPressed then of_nat i else V s x))\<rparr>))"

definition scan_keys :: "nat \<Rightarrow> chip8 \<Rightarrow> bool \<times> chip8" where
  "scan_keys x s = fold (scan_key x) [0..<16] (False, s)"

subsection \<open>The timers\<close>

definition update_timers :: "chip8 \<Rightarrow> chip8" where
  "update_timers s =
     (let s1 = (if DT s > 0 then s\<lparr>DT := DT s - 1\<rparr> else s)
      in (if ST s1 > 0 then s1\<lparr>ST := ST s1 - 1\<rparr> else s1))"

subsection \<open>One cycle\<close>

text \<open>The if-chain of \<^verbatim>\<open>executeCycle\<close>, branch by branch and in its order. \<open>rnd\<close> is
  the value \<^verbatim>\<open>rand()\<close> returns if Cxkk calls it. A word that no branch takes leaves the
  chain with the state as it was.\<close>

definition dispatch :: "u16 \<Rightarrow> nat \<Rightarrow> chip8 \<Rightarrow> fault + flow" where
  "dispatch instruction rnd s =
     (let op = op_of instruction;
          x = unat (x_of instruction);
          y = unat (y_of instruction);
          nnn = nnn_of instruction;
          kk = kk_of instruction;
          n = n_of instruction
      in
      if op = 0 then
        (if n = 0x0 then
           Inr (Fallthrough (s\<lparr>display := (\<lambda>i. if i < 256 then 0 else display s i),
                                draw := True, PC := PC s + 2\<rparr>))
         else if n = 0xE then
           (let s1 = s\<lparr>SP := SP s - 1\<rparr>
            in if unat (SP s1) < 16
               then Inr (Fallthrough (s1\<lparr>PC := stack s1 (unat (SP s1)) + 2\<rparr>))
               else Inl OutOfBounds)
         else Inr (Fallthrough s))
      else if op = 0x1 then Inr (Fallthrough (s\<lparr>PC := nnn\<rparr>))
      else if op = 0x2 then
        (if unat (SP s) < 16
         then Inr (Fallthrough (s\<lparr>stack := (stack s)(unat (SP s) := PC s),
                                   SP := SP s + 1, PC := nnn\<rparr>))
         else Inl OutOfBounds)
      else if op = 0x3 then
        Inr (Fallthrough (s\<lparr>PC := PC s + (if V s x = kk then 4 else 2)\<rparr>))
      else if op = 0x4 then
        Inr (Fallthrough (s\<lparr>PC := PC s + (if V s x \<noteq> kk then 4 else 2)\<rparr>))
      else if op = 0x5 then
        Inr (Fallthrough (s\<lparr>PC := PC s + (if V s x = V s y then 4 else 2)\<rparr>))
      else if op = 0x6 then
        Inr (Fallthrough (s\<lparr>V := (V s)(x := kk), PC := PC s + 2\<rparr>))
      else if op = 0x7 then
        Inr (Fallthrough (s\<lparr>V := (V s)(x := V s x + kk), PC := PC s + 2\<rparr>))
      else if op = 0x8 then
        (if n = 0x0 then
           Inr (Fallthrough (s\<lparr>V := (V s)(x := V s y), PC := PC s + 2\<rparr>))
         else if n = 0x1 then
           Inr (Fallthrough (s\<lparr>V := (V s)(x := V s x OR V s y), PC := PC s + 2\<rparr>))
         else if n = 0x2 then
           Inr (Fallthrough (s\<lparr>V := (V s)(x := V s x AND V s y), PC := PC s + 2\<rparr>))
         else if n = 0x3 then
           Inr (Fallthrough (s\<lparr>V := (V s)(x := V s x XOR V s y), PC := PC s + 2\<rparr>))
         else if n = 0x4 then
           (let V1 = (V s)(15 := (if unat (V s x) + unat (V s y) > 255 then 1 else 0));
                V2 = V1(x := V1 x + V1 y)
            in Inr (Fallthrough (s\<lparr>V := V2, PC := PC s + 2\<rparr>)))
         else if n = 0x5 then
           (let V1 = (V s)(15 := (if V s x > V s y then 1 else 0));
                V2 = V1(x := V1 x - V1 y)
            in Inr (Fallthrough (s\<lparr>V := V2, PC := PC s + 2\<rparr>)))
         else if n = 0x6 then
           (let V1 = (V s)(15 := V s x AND 1);
                V2 = V1(x := drop_bit 1 (V1 x))
            in Inr (Fallthrough (s\<lparr>V := V2, PC := PC s + 2\<rparr>)))
         else if n = 0x7 then
           (let V1 = (V s)(15 := (if V s y > V s x then 1 else 0));
                V2 = V1(x := V1 y - V1 x)
            in Inr (Fallthrough (s\<lparr>V := V2, PC := PC s + 2\<rparr>)))
         else if n = 0xE then
           (let V1 = (V s)(15 := drop_bit 7 (V s x));
                V2 = V1(x := push_bit 1 (V1 x))
            in Inr (Fallthrough (s\<lparr>V := V2, PC := PC s + 2\<rparr>)))
         else Inr (Fallthrough s))
      else if op = 0x9 then
        Inr (Fallthrough (s\<lparr>PC := PC s + (if V s x \<noteq> V s y then 4 else 2)\<rparr>))
      else if op = 0xA then
        Inr (Fallthrough (s\<lparr>I := nnn, PC := PC s + 2\<rparr>))
      else if op = 0xB then
        Inr (Fallthrough (s\<lparr>PC := nnn + ucast (V s 0)\<rparr>))
      else if op = 0xC then
        Inr (Fallthrough (s\<lparr>V := (V s)(x := of_nat (rnd mod 256) AND kk), PC := PC s + 2\<rparr>))
      else if op = 0xD then
        (let s1 = s\<lparr>V := (V s)(15 := 0)\<rparr>;
             startCol = unat (V s1 x);
             startRow = unat (V s1 y)
         in case draw_rows startCol startRow [0..<unat n] s1 of
              Inl f \<Rightarrow> Inl f
            | Inr s2 \<Rightarrow> Inr (Fallthrough (s2\<lparr>draw := True, PC := PC s2 + 2\<rparr>)))
      else if op = 0xE then
        (if kk = 0x9E then
           (if unat (V s x) < 16
            then Inr (Fallthrough (s\<lparr>PC := PC s + (if keys s (unat (V s x)) then 4 else 2)\<rparr>))
            else Inl OutOfBounds)
         else if kk = 0xA1 then
           (if unat (V s x) < 16
            then Inr (Fallthrough (s\<lparr>PC := PC s + (if \<not> keys s (unat (V s x)) then 4 else 2)\<rparr>))
            else Inl OutOfBounds)
         else Inr (Fallthrough s))
      else if op = 0xF then
        (if kk = 0x07 then
           Inr (Fallthrough (s\<lparr>V := (V s)(x := DT s), PC := PC s + 2\<rparr>))
         else if kk = 0x0A then
           (case scan_keys x s of
              (keyPressed, s1) \<Rightarrow>
                if \<not> keyPressed then Inr (Returned s1)
                else Inr (Fallthrough (s1\<lparr>PC := PC s1 + 2\<rparr>)))
         else if kk = 0x15 then
           Inr (Fallthrough (s\<lparr>DT := V s x, PC := PC s + 2\<rparr>))
         else if kk = 0x18 then
           Inr (Fallthrough (s\<lparr>ST := V s x, PC := PC s + 2\<rparr>))
         else if kk = 0x1E then
           (let V1 = (V s)(15 := (if unat (I s) + unat (V s x) > 0xFFF then 1 else 0))
            in Inr (Fallthrough (s\<lparr>V := V1, I := I s + ucast (V1 x), PC := PC s + 2\<rparr>)))
         else if kk = 0x29 then
           Inr (Fallthrough (s\<lparr>I := 5 * ucast (V s x), PC := PC s + 2\<rparr>))
         else if kk = 0x33 then
           (if unat (I s) + 2 < MEM_NBYTES
            then Inr (Fallthrough
                   (s\<lparr>memory := (memory s)
                          (unat (I s) := V s x div 100,
                           unat (I s) + 1 := (V s x div 10) mod 10,
                           unat (I s) + 2 := V s x mod 10),
                      PC := PC s + 2\<rparr>))
            else Inl OutOfBounds)
         else if kk = 0x55 then
           (if unat (I s) + (x + 1) \<le> MEM_NBYTES
            then Inr (Fallthrough
                   (s\<lparr>memory := (\<lambda>a. if unat (I s) \<le> a \<and> a < unat (I s) + (x + 1)
                                       then V s (a - unat (I s)) else memory s a),
                      I := I s + of_nat (x + 1), PC := PC s + 2\<rparr>))
            else Inl OutOfBounds)
         else if kk = 0x65 then
           (if unat (I s) + (x + 1) \<le> MEM_NBYTES
            then Inr (Fallthrough
                   (s\<lparr>V := (\<lambda>i. if i < x + 1 then memory s (unat (I s) + i) else V s i),
                      I := I s + of_nat (x + 1), PC := PC s + 2\<rparr>))
            else Inl OutOfBounds)
         else Inr (Fallthrough s))
      else Inr (Fallthrough s))"

text \<open>\<^verbatim>\<open>executeCycle\<close>: fetch, run the if-chain, and update the timers unless the chain
  was left by \<^verbatim>\<open>return\<close>.\<close>

definition executeCycle :: "nat \<Rightarrow> chip8 \<Rightarrow> fault + chip8" where
  "executeCycle rnd s =
     (case fetch s of
        Inl f \<Rightarrow> Inl f
      | Inr instruction \<Rightarrow>
          (case dispatch instruction rnd s of
             Inl f \<Rightarrow> Inl f
           | Inr (Returned s1) \<Rightarrow> Inr s1
           | Inr (Fallthrough s1) \<Rightarrow> Inr (update_timers s1)))"

text \<open>The cycle after its fetch: the if-chain and the timer update, run on a given
  instruction word. \<open>executeCycle\<close> is the fetch followed by this (lemma
  \<open>executeCycle_cycle_with\<close>); it serves to compare what two instruction words do to one
  state.\<close>

definition cycle_with :: "u16 \<Rightarrow> nat \<Rightarrow> chip8 \<Rightarrow> fault + chip8" where
  "cycle_with instruction rnd s =
     (case dispatch instruction rnd s of
        Inl f \<Rightarrow> Inl f
      | Inr (Returned s1) \<Rightarrow> Inr s1
      | Inr (Fallthrough s1) \<Rightarrow> Inr (update_timers s1))"

subsection \<open>Pixels\<close>

text \<open>Pixel \<open>i\<close> of the packed display, as the render loop of \<^verbatim>\<open>main\<close> reads it:
  \<^verbatim>\<open>(display[i / 8] & (1 << (7 - i % 8))) >> (7 - i % 8)\<close>; the pixel at row \<open>r\<close> and
  column \<open>c\<close> is pixel \<open>r * 64 + c\<close>.\<close>

definition pixel :: "(nat \<Rightarrow> u8) \<Rightarrow> nat \<Rightarrow> bool" where
  "pixel d i = (drop_bit (7 - i mod 8) (d (i div 8) AND push_bit (7 - i mod 8) 1) \<noteq> 0)"

text \<open>The sprite bit at (\<open>row\<close>, \<open>col\<close>): \<^verbatim>\<open>bytePxVal\<close> of the draw loop, for the byte at
  \<^verbatim>\<open>memory[I + row]\<close>.\<close>

definition sprite_bit :: "chip8 \<Rightarrow> nat \<Rightarrow> nat \<Rightarrow> bool" where
  "sprite_bit s row col =
     (drop_bit (7 - col) (memory s (unat (I s) + row) AND push_bit (7 - col) 1) \<noteq> 0)"

text \<open>\<^verbatim>\<open>bitIndex\<close> of the draw loop, for the start coordinates and the offsets.\<close>

definition bit_index :: "nat \<Rightarrow> nat \<Rightarrow> nat \<Rightarrow> nat \<Rightarrow> nat" where
  "bit_index startCol startRow row col = ((startRow + row) mod 32) * 64 + (startCol + col) mod 64"

text \<open>For the proofs, one round of the inner loop as a function of the bit index and
  the sprite bit, and the whole draw as a list of such rounds.\<close>

definition plot :: "nat \<Rightarrow> bool \<Rightarrow> chip8 \<Rightarrow> chip8" where
  "plot j v s =
     s\<lparr>display := (display s)(j div 8 := display s (j div 8) XOR push_bit (7 - j mod 8) (of_bool v)),
       V := (V s)(15 := V s 15 OR of_bool (pixel (display s) j \<and> v))\<rparr>"

definition plots :: "(nat \<times> bool) list \<Rightarrow> chip8 \<Rightarrow> chip8" where
  "plots hs s = fold (\<lambda>(j, v). plot j v) hs s"

definition row_hits :: "chip8 \<Rightarrow> nat \<Rightarrow> nat \<Rightarrow> nat \<Rightarrow> (nat \<times> bool) list" where
  "row_hits s startCol startRow row =
     map (\<lambda>col. (bit_index startCol startRow row col, sprite_bit s row col)) [0..<8]"

definition sprite_hits :: "chip8 \<Rightarrow> nat \<Rightarrow> nat \<Rightarrow> nat list \<Rightarrow> (nat \<times> bool) list" where
  "sprite_hits s startCol startRow rows = concat (map (row_hits s startCol startRow) rows)"

text \<open>What one timer update does to the value of a timer.\<close>

definition tick :: "u8 \<Rightarrow> u8" where
  "tick t = (if t > 0 then t - 1 else t)"

subsection \<open>Machine states for the examples\<close>

text \<open>A machine with everything zero and \<open>PC\<close> at the start of the program area.\<close>

definition blank :: chip8 where
  "blank = \<lparr>V = (\<lambda>_. 0), DT = 0, ST = 0, SP = 0, I = 0, stack = (\<lambda>_. 0),
            keys = (\<lambda>_. False), memory = (\<lambda>_. 0), PC = 0x200,
            display = (\<lambda>_. 0), draw = False\<rparr>"




text \<open>All memory zero (so the word at \<open>PC\<close> is 0x0000) and eight pixels lit.\<close>

definition zero_word_state :: chip8 where
  "zero_word_state = blank\<lparr>display := (display blank)(0 := 0xFF)\<rparr>"

text \<open>The word 0xE123 at 0x200, which no branch of the if-chain takes.\<close>

definition bad_word_state :: chip8 where
  "bad_word_state = blank\<lparr>memory := (memory blank)(0x200 := 0xE1, 0x201 := 0x23), DT := 2\<rparr>"

text \<open>8xy4 with \<open>x = 0\<close>, \<open>y = 0xF\<close> at 0x200, \<open>V[0] = 1\<close> and \<open>V[0xF] = 5\<close>.\<close>

definition add_vf_state :: chip8 where
  "add_vf_state = blank\<lparr>memory := (memory blank)(0x200 := 0x80, 0x201 := 0xF4),
                         V := (V blank)(0 := 1, 15 := 5)\<rparr>"

text \<open>Fx1E with \<open>x = 0xF\<close> at 0x200, \<open>I = 0x10\<close> and \<open>V[0xF] = 5\<close>.\<close>

definition add_i_vf_state :: chip8 where
  "add_i_vf_state = blank\<lparr>memory := (memory blank)(0x200 := 0xFF, 0x201 := 0x1E),
                           V := (V blank)(15 := 5), I := 0x10\<rparr>"

text \<open>Fx0A with \<open>x = 0\<close> at 0x200 while key 3, and only key 3, is pressed.\<close>

definition key3_state :: chip8 where
  "key3_state = blank\<lparr>memory := (memory blank)(0x200 := 0xF0, 0x201 := 0x0A),
                       keys := (keys blank)(3 := True)\<rparr>"

text \<open>Dxyn with \<open>x = 0xF\<close>, \<open>y = 0\<close>, \<open>n = 1\<close> at 0x200, \<open>V[0xF] = 1\<close>, and the one-row
  sprite 0x80 (its leftmost pixel) at \<open>I = 0x300\<close>; the display is empty.\<close>

definition draw_vf_state :: chip8 where
  "draw_vf_state = blank\<lparr>memory := (memory blank)(0x200 := 0xDF, 0x201 := 0x01, 0x300 := 0x80),
                          V := (V blank)(15 := 1), I := 0x300\<rparr>"

text \<open>D011 twice, at 0x200 and 0x202: the one-row sprite 0x80 at \<open>I = 0x300\<close>, drawn at
  \<open>(V[0], V[1]) = (0, 0)\<close> on an empty display.\<close>

definition sprite_state :: chip8 where
  "sprite_state = blank\<lparr>memory := (memory blank)(0x200 := 0xD0, 0x201 := 0x11,
                                                  0x202 := 0xD0, 0x203 := 0x11, 0x300 := 0x80),
                         I := 0x300\<rparr>"

text \<open>The same machine after the first of the two draws: the pixel is lit, no collision.\<close>

definition sprite_drawn_state :: chip8 where
  "sprite_drawn_state = sprite_state\<lparr>V := (V sprite_state)(15 := 0),
                                     display := (display sprite_state)(0 := 0x80),
                                     draw := True, PC := 0x202\<rparr>"

text \<open>8F06 at 0x200 with \<open>V[0xF] = 3\<close> and the delay timer running.\<close>

definition shr_vf_cycle_state :: chip8 where
  "shr_vf_cycle_state = blank\<lparr>memory := (memory blank)(0x200 := 0x8F, 0x201 := 0x06),
                              V := (V blank)(15 := 3), DT := 5\<rparr>"

text \<open>8326 at 0x200 with \<open>V[3] = 0x85\<close> and the delay timer running.\<close>

definition shr_state :: chip8 where
  "shr_state = blank\<lparr>memory := (memory blank)(0x200 := 0x83, 0x201 := 0x26),
                     V := (V blank)(3 := 0x85), DT := 2\<rparr>"

subsection \<open>Opcode patterns\<close>

text \<open>This one definition follows the specification, not the code: the opcode patterns of
  the table in its section 4.2, where a hexadecimal digit stands for itself and \<open>x\<close>,
  \<open>y\<close>, \<open>n\<close>, \<open>kk\<close>, \<open>nnn\<close> for any value.\<close>

definition spec_opcode_pattern :: "u16 \<Rightarrow> bool" where
  "spec_opcode_pattern w \<longleftrightarrow>
     w = 0x00E0 \<or> w = 0x00EE
     \<or> op_of w \<in> {0x1, 0x2, 0x3, 0x4, 0x6, 0x7, 0xA, 0xB, 0xC, 0xD}
     \<or> (op_of w \<in> {0x5, 0x9} \<and> n_of w = 0)
     \<or> (op_of w = 0x8 \<and> n_of w \<in> {0x0, 0x1, 0x2, 0x3, 0x4, 0x5, 0x6, 0x7, 0xE})
     \<or> (op_of w = 0xE \<and> kk_of w \<in> {0x9E, 0xA1})
     \<or> (op_of w = 0xF \<and> kk_of w \<in> {0x07, 0x0A, 0x15, 0x18, 0x1E, 0x29, 0x33, 0x55, 0x65})"

text \<open>The words for which no branch of the if-chain of \<^verbatim>\<open>executeCycle\<close> runs: the chain
  tests \<open>op\<close>, and then \<open>n\<close> in the families 0 and 8 and \<open>kk\<close> in the families E and F.\<close>

definition no_branch :: "u16 \<Rightarrow> bool" where
  "no_branch w \<longleftrightarrow>
     (op_of w = 0x0 \<and> n_of w \<notin> {0x0, 0xE})
     \<or> (op_of w = 0x8 \<and> n_of w \<notin> {0x0, 0x1, 0x2, 0x3, 0x4, 0x5, 0x6, 0x7, 0xE})
     \<or> (op_of w = 0xE \<and> kk_of w \<notin> {0x9E, 0xA1})
     \<or> (op_of w = 0xF \<and> kk_of w \<notin> {0x07, 0x0A, 0x15, 0x18, 0x1E, 0x29, 0x33, 0x55, 0x65})"

section \<open>The CHIP-8 machine of main.c\<close>

text \<open>
  In main.c the machine is \<^verbatim>\<open>union chip8_t\<close>: the array \<^verbatim>\<open>memory[4096]\<close> and, laid over its
  first bytes, a struct with the font, the registers, the stack, the display and the
  keys. The whole machine state is therefore the byte array, and every member is a
  view of some of its bytes. The offsets are those of the usual layout rules (each
  member at the next multiple of its alignment, which leaves one unused byte before
  \<^verbatim>\<open>PC\<close>), and the 16-bit members are stored low byte first:
  \<^verbatim>\<open>fontset\<close> 0..79, \<^verbatim>\<open>V\<close> 80..95, \<^verbatim>\<open>DT\<close> 96, \<^verbatim>\<open>ST\<close> 97, \<^verbatim>\<open>SP\<close> 98, \<^verbatim>\<open>PC\<close> 100..101,
  \<^verbatim>\<open>I\<close> 102..103, \<^verbatim>\<open>stack\<close> 104..135, \<^verbatim>\<open>display\<close> 136..391, \<^verbatim>\<open>draw_flag\<close> 392,
  \<^verbatim>\<open>keys\<close> 393..408.
\<close>

type_synonym chip8_t = "nat \<Rightarrow> u8"

datatype c_fault = IndexOutOfBounds | MemcpyOverlap

datatype c_flow = C_Fallthrough chip8_t | C_Returned chip8_t

definition get16 :: "chip8_t \<Rightarrow> nat \<Rightarrow> u16" where
  "get16 m a = push_bit 8 (ucast (m (a + 1))) OR ucast (m a)"

definition set16 :: "chip8_t \<Rightarrow> nat \<Rightarrow> u16 \<Rightarrow> chip8_t" where
  "set16 m a v = m(a := ucast v, a + 1 := ucast (drop_bit 8 v))"

definition V_u :: "chip8_t \<Rightarrow> nat \<Rightarrow> u8" where
  "V_u m i = m (80 + i)"

definition set_V :: "chip8_t \<Rightarrow> nat \<Rightarrow> u8 \<Rightarrow> chip8_t" where
  "set_V m i v = m(80 + i := v)"

definition DT_u :: "chip8_t \<Rightarrow> u8" where
  "DT_u m = m 96"

definition set_DT :: "chip8_t \<Rightarrow> u8 \<Rightarrow> chip8_t" where
  "set_DT m v = m(96 := v)"

definition ST_u :: "chip8_t \<Rightarrow> u8" where
  "ST_u m = m 97"

definition set_ST :: "chip8_t \<Rightarrow> u8 \<Rightarrow> chip8_t" where
  "set_ST m v = m(97 := v)"

definition SP_u :: "chip8_t \<Rightarrow> u8" where
  "SP_u m = m 98"

definition set_SP :: "chip8_t \<Rightarrow> u8 \<Rightarrow> chip8_t" where
  "set_SP m v = m(98 := v)"

definition PC_u :: "chip8_t \<Rightarrow> u16" where
  "PC_u m = get16 m 100"

definition set_PC :: "chip8_t \<Rightarrow> u16 \<Rightarrow> chip8_t" where
  "set_PC m v = set16 m 100 v"

definition I_u :: "chip8_t \<Rightarrow> u16" where
  "I_u m = get16 m 102"

definition set_I :: "chip8_t \<Rightarrow> u16 \<Rightarrow> chip8_t" where
  "set_I m v = set16 m 102 v"

definition stack_u :: "chip8_t \<Rightarrow> nat \<Rightarrow> u16" where
  "stack_u m k = get16 m (104 + 2 * k)"

definition set_stack :: "chip8_t \<Rightarrow> nat \<Rightarrow> u16 \<Rightarrow> chip8_t" where
  "set_stack m k v = set16 m (104 + 2 * k) v"

definition display_u :: "chip8_t \<Rightarrow> nat \<Rightarrow> u8" where
  "display_u m k = m (136 + k)"

definition set_display :: "chip8_t \<Rightarrow> nat \<Rightarrow> u8 \<Rightarrow> chip8_t" where
  "set_display m k v = m(136 + k := v)"

definition set_draw_flag :: "chip8_t \<Rightarrow> u8 \<Rightarrow> chip8_t" where
  "set_draw_flag m v = m(392 := v)"

definition keys_u :: "chip8_t \<Rightarrow> nat \<Rightarrow> u8" where
  "keys_u m k = m (393 + k)"

subsection \<open>Fetch\<close>

definition c_fetch :: "chip8_t \<Rightarrow> c_fault + u16" where
  "c_fetch m =
     (if unat (PC_u m) + 1 < MEM_NBYTES
      then Inr (push_bit 8 (ucast (m (unat (PC_u m)))) OR ucast (m (unat (PC_u m) + 1)))
      else Inl IndexOutOfBounds)"

subsection \<open>The sprite loops of Dxyn\<close>

definition c_draw_bit :: "u8 \<Rightarrow> nat \<Rightarrow> nat \<Rightarrow> nat \<Rightarrow> chip8_t \<Rightarrow> chip8_t" where
  "c_draw_bit nthByte pxRow startCol offsetCol m =
     (let byteShamt = 7 - offsetCol;
          bytePxVal = drop_bit byteShamt (nthByte AND push_bit byteShamt 1);
          pxCol = (startCol + offsetCol) mod 64;
          bitIndex = pxRow * 64 + pxCol;
          byteIndex = bitIndex div 8;
          dispShamt = 7 - bitIndex mod 8;
          originalPxVal = drop_bit dispShamt (display_u m byteIndex AND push_bit dispShamt 1);
          newPxVal = originalPxVal XOR bytePxVal;
          m1 = set_display m byteIndex (display_u m byteIndex XOR push_bit dispShamt bytePxVal)
      in set_V m1 15 (V_u m1 15 OR (if originalPxVal \<noteq> 0 \<and> \<not> newPxVal \<noteq> 0 then 1 else 0)))"

definition c_draw_byte :: "u8 \<Rightarrow> nat \<Rightarrow> nat \<Rightarrow> chip8_t \<Rightarrow> chip8_t" where
  "c_draw_byte nthByte pxRow startCol m = fold (c_draw_bit nthByte pxRow startCol) [0..<8] m"

fun c_draw_rows :: "nat \<Rightarrow> nat \<Rightarrow> nat list \<Rightarrow> chip8_t \<Rightarrow> c_fault + chip8_t" where
  "c_draw_rows startCol startRow [] m = Inr m"
| "c_draw_rows startCol startRow (offsetRow # rest) m =
     (if unat (I_u m) + offsetRow < MEM_NBYTES
      then c_draw_rows startCol startRow rest
             (c_draw_byte (m (unat (I_u m) + offsetRow)) ((startRow + offsetRow) mod 32) startCol m)
      else Inl IndexOutOfBounds)"

subsection \<open>The key scan of Fx0A\<close>

definition c_scan_key :: "nat \<Rightarrow> nat \<Rightarrow> bool \<times> chip8_t \<Rightarrow> bool \<times> chip8_t" where
  "c_scan_key x i km =
     (let keyPressed = (fst km \<or> keys_u (snd km) i \<noteq> 0);
          m = snd km
      in (keyPressed, set_V m x (if keyPressed then of_nat i else V_u m x)))"

definition c_scan_keys :: "nat \<Rightarrow> chip8_t \<Rightarrow> bool \<times> chip8_t" where
  "c_scan_keys x m = fold (c_scan_key x) [0..<16] (False, m)"

subsection \<open>The timers\<close>

definition c_update_timers :: "chip8_t \<Rightarrow> chip8_t" where
  "c_update_timers m =
     (let m1 = (if DT_u m > 0 then set_DT m (DT_u m - 1) else m)
      in (if ST_u m1 > 0 then set_ST m1 (ST_u m1 - 1) else m1))"

subsection \<open>One cycle\<close>

text \<open>\<^verbatim>\<open>memcpy\<close> copies \<open>len\<close> bytes from \<open>src\<close> to \<open>dst\<close>; the two ranges must not overlap.\<close>

definition memcpy_u :: "chip8_t \<Rightarrow> nat \<Rightarrow> nat \<Rightarrow> nat \<Rightarrow> c_fault + chip8_t" where
  "memcpy_u m dst src len =
     (if dst + len \<le> MEM_NBYTES \<and> src + len \<le> MEM_NBYTES
      then (if dst + len \<le> src \<or> src + len \<le> dst
            then Inr (\<lambda>a. if dst \<le> a \<and> a < dst + len then m (src + (a - dst)) else m a)
            else Inl MemcpyOverlap)
      else Inl IndexOutOfBounds)"

definition c_dispatch :: "u16 \<Rightarrow> nat \<Rightarrow> chip8_t \<Rightarrow> c_fault + c_flow" where
  "c_dispatch instruction rnd m =
     (let op = op_of instruction;
          x = unat (x_of instruction);
          y = unat (y_of instruction);
          nnn = nnn_of instruction;
          kk = kk_of instruction;
          n = n_of instruction
      in
      if op = 0 then
        (if n = 0x0 then
           (let m1 = (\<lambda>a. if 136 \<le> a \<and> a < 136 + 256 then 0 else m a);
                m2 = set_draw_flag m1 1
            in Inr (C_Fallthrough (set_PC m2 (PC_u m2 + 2))))
         else if n = 0xE then
           (let m1 = set_SP m (SP_u m - 1)
            in if unat (SP_u m1) < 16
               then (let m2 = set_PC m1 (stack_u m1 (unat (SP_u m1)))
                     in Inr (C_Fallthrough (set_PC m2 (PC_u m2 + 2))))
               else Inl IndexOutOfBounds)
         else Inr (C_Fallthrough m))
      else if op = 0x1 then Inr (C_Fallthrough (set_PC m nnn))
      else if op = 0x2 then
        (if unat (SP_u m) < 16
         then (let m1 = set_stack m (unat (SP_u m)) (PC_u m);
                   m2 = set_SP m1 (SP_u m1 + 1)
               in Inr (C_Fallthrough (set_PC m2 nnn)))
         else Inl IndexOutOfBounds)
      else if op = 0x3 then
        Inr (C_Fallthrough (set_PC m (PC_u m + (if V_u m x = kk then 4 else 2))))
      else if op = 0x4 then
        Inr (C_Fallthrough (set_PC m (PC_u m + (if V_u m x \<noteq> kk then 4 else 2))))
      else if op = 0x5 then
        Inr (C_Fallthrough (set_PC m (PC_u m + (if V_u m x = V_u m y then 4 else 2))))
      else if op = 0x6 then
        (let m1 = set_V m x kk
         in Inr (C_Fallthrough (set_PC m1 (PC_u m1 + 2))))
      else if op = 0x7 then
        (let m1 = set_V m x (V_u m x + kk)
         in Inr (C_Fallthrough (set_PC m1 (PC_u m1 + 2))))
      else if op = 0x8 then
        (if n = 0x0 then
           (let m1 = set_V m x (V_u m y)
            in Inr (C_Fallthrough (set_PC m1 (PC_u m1 + 2))))
         else if n = 0x1 then
           (let m1 = set_V m x (V_u m x OR V_u m y)
            in Inr (C_Fallthrough (set_PC m1 (PC_u m1 + 2))))
         else if n = 0x2 then
           (let m1 = set_V m x (V_u m x AND V_u m y)
            in Inr (C_Fallthrough (set_PC m1 (PC_u m1 + 2))))
         else if n = 0x3 then
           (let m1 = set_V m x (V_u m x XOR V_u m y)
            in Inr (C_Fallthrough (set_PC m1 (PC_u m1 + 2))))
         else if n = 0x4 then
           (let m1 = set_V m 15 (if unat (V_u m x) + unat (V_u m y) > 255 then 1 else 0);
                m2 = set_V m1 x (V_u m1 x + V_u m1 y)
            in Inr (C_Fallthrough (set_PC m2 (PC_u m2 + 2))))
         else if n = 0x5 then
           (let m1 = set_V m 15 (if V_u m x > V_u m y then 1 else 0);
                m2 = set_V m1 x (V_u m1 x - V_u m1 y)
            in Inr (C_Fallthrough (set_PC m2 (PC_u m2 + 2))))
         else if n = 0x6 then
           (let m1 = set_V m 15 (V_u m x AND 1);
                m2 = set_V m1 x (drop_bit 1 (V_u m1 x))
            in Inr (C_Fallthrough (set_PC m2 (PC_u m2 + 2))))
         else if n = 0x7 then
           (let m1 = set_V m 15 (if V_u m y > V_u m x then 1 else 0);
                m2 = set_V m1 x (V_u m1 y - V_u m1 x)
            in Inr (C_Fallthrough (set_PC m2 (PC_u m2 + 2))))
         else if n = 0xE then
           (let m1 = set_V m 15 (drop_bit 7 (V_u m x));
                m2 = set_V m1 x (push_bit 1 (V_u m1 x))
            in Inr (C_Fallthrough (set_PC m2 (PC_u m2 + 2))))
         else Inr (C_Fallthrough m))
      else if op = 0x9 then
        Inr (C_Fallthrough (set_PC m (PC_u m + (if V_u m x \<noteq> V_u m y then 4 else 2))))
      else if op = 0xA then
        (let m1 = set_I m nnn
         in Inr (C_Fallthrough (set_PC m1 (PC_u m1 + 2))))
      else if op = 0xB then
        Inr (C_Fallthrough (set_PC m (nnn + ucast (V_u m 0))))
      else if op = 0xC then
        (let m1 = set_V m x (of_nat (rnd mod 256) AND kk)
         in Inr (C_Fallthrough (set_PC m1 (PC_u m1 + 2))))
      else if op = 0xD then
        (let m1 = set_V m 15 0;
             startCol = unat (V_u m1 x);
             startRow = unat (V_u m1 y)
         in case c_draw_rows startCol startRow [0..<unat n] m1 of
              Inl f \<Rightarrow> Inl f
            | Inr m2 \<Rightarrow>
                (let m3 = set_draw_flag m2 1
                 in Inr (C_Fallthrough (set_PC m3 (PC_u m3 + 2)))))
      else if op = 0xE then
        (if kk = 0x9E then
           (if unat (V_u m x) < 16
            then Inr (C_Fallthrough
                   (set_PC m (PC_u m + (if keys_u m (unat (V_u m x)) \<noteq> 0 then 4 else 2))))
            else Inl IndexOutOfBounds)
         else if kk = 0xA1 then
           (if unat (V_u m x) < 16
            then Inr (C_Fallthrough
                   (set_PC m (PC_u m + (if \<not> keys_u m (unat (V_u m x)) \<noteq> 0 then 4 else 2))))
            else Inl IndexOutOfBounds)
         else Inr (C_Fallthrough m))
      else if op = 0xF then
        (if kk = 0x07 then
           (let m1 = set_V m x (DT_u m)
            in Inr (C_Fallthrough (set_PC m1 (PC_u m1 + 2))))
         else if kk = 0x0A then
           (case c_scan_keys x m of
              (keyPressed, m1) \<Rightarrow>
                if \<not> keyPressed then Inr (C_Returned m1)
                else Inr (C_Fallthrough (set_PC m1 (PC_u m1 + 2))))
         else if kk = 0x15 then
           (let m1 = set_DT m (V_u m x)
            in Inr (C_Fallthrough (set_PC m1 (PC_u m1 + 2))))
         else if kk = 0x18 then
           (let m1 = set_ST m (V_u m x)
            in Inr (C_Fallthrough (set_PC m1 (PC_u m1 + 2))))
         else if kk = 0x1E then
           (let m1 = set_V m 15 (if unat (I_u m) + unat (V_u m x) > 0xFFF then 1 else 0);
                m2 = set_I m1 (I_u m1 + ucast (V_u m1 x))
            in Inr (C_Fallthrough (set_PC m2 (PC_u m2 + 2))))
         else if kk = 0x29 then
           (let m1 = set_I m (5 * ucast (V_u m x))
            in Inr (C_Fallthrough (set_PC m1 (PC_u m1 + 2))))
         else if kk = 0x33 then
           (if unat (I_u m) < MEM_NBYTES then
              (let m1 = m(unat (I_u m) := V_u m x div 100)
               in if unat (I_u m1) + 1 < MEM_NBYTES then
                    (let m2 = m1(unat (I_u m1) + 1 := (V_u m1 x div 10) mod 10)
                     in if unat (I_u m2) + 2 < MEM_NBYTES then
                          (let m3 = m2(unat (I_u m2) + 2 := V_u m2 x mod 10)
                           in Inr (C_Fallthrough (set_PC m3 (PC_u m3 + 2))))
                        else Inl IndexOutOfBounds)
                  else Inl IndexOutOfBounds)
            else Inl IndexOutOfBounds)
         else if kk = 0x55 then
           (case memcpy_u m (unat (I_u m)) 80 (x + 1) of
              Inl f \<Rightarrow> Inl f
            | Inr m1 \<Rightarrow>
                (let m2 = set_I m1 (I_u m1 + of_nat (x + 1))
                 in Inr (C_Fallthrough (set_PC m2 (PC_u m2 + 2)))))
         else if kk = 0x65 then
           (case memcpy_u m 80 (unat (I_u m)) (x + 1) of
              Inl f \<Rightarrow> Inl f
            | Inr m1 \<Rightarrow>
                (let m2 = set_I m1 (I_u m1 + of_nat (x + 1))
                 in Inr (C_Fallthrough (set_PC m2 (PC_u m2 + 2)))))
         else Inr (C_Fallthrough m))
      else Inr (C_Fallthrough m))"

definition chip8_t_emulate_cycle :: "nat \<Rightarrow> chip8_t \<Rightarrow> c_fault + chip8_t" where
  "chip8_t_emulate_cycle rnd m =
     (case c_fetch m of
        Inl f \<Rightarrow> Inl f
      | Inr instruction \<Rightarrow>
          (case c_dispatch instruction rnd m of
             Inl f \<Rightarrow> Inl f
           | Inr (C_Returned m1) \<Rightarrow> Inr m1
           | Inr (C_Fallthrough m1) \<Rightarrow> Inr (c_update_timers m1)))"

text \<open>The cycle after its fetch, as \<open>cycle_with\<close> for main.cc: the if-chain and the timer
  update, run on a given instruction word (lemma \<open>emulate_cycle_cycle_with\<close>).\<close>

definition c_cycle_with :: "u16 \<Rightarrow> nat \<Rightarrow> chip8_t \<Rightarrow> c_fault + chip8_t" where
  "c_cycle_with instruction rnd m =
     (case c_dispatch instruction rnd m of
        Inl f \<Rightarrow> Inl f
      | Inr (C_Returned m1) \<Rightarrow> Inr m1
      | Inr (C_Fallthrough m1) \<Rightarrow> Inr (c_update_timers m1))"

subsection \<open>Pixels of the union\<close>

text \<open>One step of the innermost loop as a pixel flip, and a list of such flips, as \<open>plot\<close>
  and \<open>plots\<close> for main.cc; used in the proofs only.\<close>

definition c_plot :: "nat \<Rightarrow> bool \<Rightarrow> chip8_t \<Rightarrow> chip8_t" where
  "c_plot j v m =
     (let m1 = set_display m (j div 8)
                 (display_u m (j div 8) XOR push_bit (7 - j mod 8) (of_bool v))
      in set_V m1 15 (V_u m1 15 OR of_bool (pixel (display_u m) j \<and> v)))"

definition c_plots :: "(nat \<times> bool) list \<Rightarrow> chip8_t \<Rightarrow> chip8_t" where
  "c_plots hs m = fold (\<lambda>(j, v). c_plot j v) hs m"

text \<open>The members of the union read as a \<open>chip8\<close> record, to speak of the sprite bits
  (\<open>sprite_bit\<close>) of a union.\<close>

definition view :: "chip8_t \<Rightarrow> chip8" where
  "view m = \<lparr>V = V_u m, DT = DT_u m, ST = ST_u m, SP = SP_u m, I = I_u m, stack = stack_u m,
             keys = (\<lambda>k. keys_u m k \<noteq> 0), memory = m, PC = PC_u m,
             display = display_u m, draw = (m 392 \<noteq> 0)\<rparr>"

subsection \<open>Machine states of main.c for the examples\<close>

text \<open>All bytes zero but the high byte of \<^verbatim>\<open>PC\<close>: \<open>PC = 0x200\<close>.\<close>

definition c_blank :: chip8_t where
  "c_blank = (\<lambda>_. 0)(101 := 0x02)"



text \<open>The word 0xE123 at 0x200, which no branch takes; the delay timer is running.\<close>

definition c_bad_word_state :: chip8_t where
  "c_bad_word_state = c_blank(0x200 := 0xE1, 0x201 := 0x23, 96 := 2)"


text \<open>8326 at 0x200 with \<open>V[3] = 0x85\<close> and the delay timer running.\<close>

definition c_shr_state :: chip8_t where
  "c_shr_state = c_blank(0x200 := 0x83, 0x201 := 0x26, 83 := 0x85, 96 := 2)"

text \<open>D011 at 0x200 and again at 0x202, the sprite byte 0x80 at \<open>I = 0x300\<close>, empty display.\<close>

definition c_sprite_state :: chip8_t where
  "c_sprite_state = c_blank(0x200 := 0xD0, 0x201 := 0x11, 0x202 := 0xD0, 0x203 := 0x11,
                            0x300 := 0x80, 103 := 0x03)"

section \<open>Properties\<close>

subsection \<open>Timers and fetch\<close>

lemma update_timers_eq: "update_timers s = s\<lparr>DT := tick (DT s), ST := tick (ST s)\<rparr>"
  by (simp add: update_timers_def tick_def)

lemma fetch_cong: "PC s' = PC s \<Longrightarrow> memory s' = memory s \<Longrightarrow> fetch s' = fetch s"
  by (simp add: fetch_def)


subsection \<open>What the sprite loops leave alone\<close>

lemma fold_keeps:
  assumes "\<And>k s. g (f k s) = g s"
  shows "g (fold f ks s) = g s"
  by (induction ks arbitrary: s) (simp_all add: assms)

lemma draw_bit_keeps:
  "DT (draw_bit b r c k s) = DT s" "ST (draw_bit b r c k s) = ST s"
  "SP (draw_bit b r c k s) = SP s" "I (draw_bit b r c k s) = I s"
  "stack (draw_bit b r c k s) = stack s" "keys (draw_bit b r c k s) = keys s"
  "memory (draw_bit b r c k s) = memory s" "PC (draw_bit b r c k s) = PC s"
  "draw (draw_bit b r c k s) = draw s"
  by (simp_all add: draw_bit_def Let_def)

lemma draw_byte_keeps:
  "DT (draw_byte b r c s) = DT s" "ST (draw_byte b r c s) = ST s"
  "SP (draw_byte b r c s) = SP s" "I (draw_byte b r c s) = I s"
  "stack (draw_byte b r c s) = stack s" "keys (draw_byte b r c s) = keys s"
  "memory (draw_byte b r c s) = memory s" "PC (draw_byte b r c s) = PC s"
  "draw (draw_byte b r c s) = draw s"
  unfolding draw_byte_def by (rule fold_keeps, simp add: draw_bit_keeps)+


subsection \<open>The key scan\<close>

lemma scan_key_no_key:
  "\<not> keys s i \<Longrightarrow> scan_key x i (False, s) = (False, s)"
  by (simp add: scan_key_def)

lemma fold_scan_key_no_key:
  "\<forall>i\<in>set js. \<not> keys s i \<Longrightarrow> fold (scan_key x) js (False, s) = (False, s)"
  by (induction js) (simp_all add: scan_key_no_key)

lemma scan_keys_no_key:
  "\<forall>i<16. \<not> keys s i \<Longrightarrow> scan_keys x s = (False, s)"
  by (simp add: scan_keys_def fold_scan_key_no_key)

lemma scan_key_pressed:
  "scan_key x i (True, s) = (True, s\<lparr>V := (V s)(x := of_nat i)\<rparr>)"
  by (simp add: scan_key_def)

lemma scan_key_first:
  "keys s i \<Longrightarrow> scan_key x i (False, s) = (True, s\<lparr>V := (V s)(x := of_nat i)\<rparr>)"
  by (simp add: scan_key_def)

lemma fold_scan_key_pressed:
  "fold (scan_key x) (js @ [k]) (True, s) = (True, s\<lparr>V := (V s)(x := of_nat k)\<rparr>)"
  by (induction js arbitrary: s) (simp_all add: scan_key_pressed)

lemma fold_scan_key_some:
  "\<exists>i\<in>set (js @ [k]). keys s i \<Longrightarrow>
   fold (scan_key x) (js @ [k]) (False, s) = (True, s\<lparr>V := (V s)(x := of_nat k)\<rparr>)"
proof (induction js)
  case Nil
  then have "keys s k" by simp
  then show ?case
    by (simp only: append_Nil fold_simps id_apply o_apply scan_key_first)
next
  case (Cons j js)
  show ?case
  proof (cases "keys s j")
    case True
    then show ?thesis
      by (simp add: scan_key_first fold_scan_key_pressed del: fold_append fun_upd_apply)
  next
    case False
    with Cons.prems have "\<exists>i\<in>set (js @ [k]). keys s i" by auto
    with Cons.IH False show ?thesis
      by (simp add: scan_key_no_key del: fold_append fun_upd_apply)
  qed
qed

lemma scan_keys_some:
  assumes "i < 16" and "keys s i"
  shows "scan_keys x s = (True, s\<lparr>V := (V s)(x := 15)\<rparr>)"
proof -
  have split: "[0..<16] = [0..<15] @ [15::nat]"
    by (simp add: upt_rec)
  have "\<exists>i\<in>set ([0..<15] @ [15::nat]). keys s i"
    using assms unfolding split [symmetric] by auto
  from fold_scan_key_some [OF this, of x] show ?thesis
    by (simp add: scan_keys_def split)
qed


subsection \<open>Fx0A with no key pressed\<close>

text \<open>
  C9. When the fetched instruction is Fx0A and none of the 16 keys is pressed, the cycle
  leaves the whole machine state as it was: \<open>PC\<close> and \<open>V[x]\<close>, and also \<open>DT\<close> and \<open>ST\<close>,
  because the function returns before the timer update.
\<close>

theorem fx0a_no_key_unchanged:
  assumes "fetch s = Inr w" and "op_of w = 0xF" and "kk_of w = 0x0A"
    and "\<forall>i<16. \<not> keys s i"
  shows "executeCycle rnd s = Inr s"
  using assms by (simp add: executeCycle_def dispatch_def scan_keys_no_key)

theorem fx0a_no_key_unchanged_witness:
  "executeCycle 7 (blank\<lparr>memory := (memory blank)(0x200 := 0xFA, 0x201 := 0x0A), DT := 9\<rparr>)
     = Inr (blank\<lparr>memory := (memory blank)(0x200 := 0xFA, 0x201 := 0x0A), DT := 9\<rparr>)"
proof -
  let ?s = "blank\<lparr>memory := (memory blank)(0x200 := 0xFA, 0x201 := 0x0A), DT := 9\<rparr>"
  have f: "fetch ?s = Inr 0xFA0A"
    by (simp add: blank_def fetch_def MEM_NBYTES_def)
  have o: "op_of 0xFA0A = 0xF" and k: "kk_of 0xFA0A = 0x0A"
    by (simp_all add: op_of_def kk_of_def)
  have n: "\<forall>i<16. \<not> keys ?s i" by (simp add: blank_def)
  from fx0a_no_key_unchanged [OF f o k n] show ?thesis .
qed

subsection \<open>The timer update\<close>


subsection \<open>Words that no branch takes\<close>

lemma no_branch_not_in_table: "no_branch w \<Longrightarrow> \<not> spec_opcode_pattern w"
  by (auto simp: no_branch_def spec_opcode_pattern_def op_of_def n_of_def)

subsection \<open>Register arithmetic\<close>

lemma unat_ucast_u8_u16: "unat (ucast (v :: u8) :: u16) = unat v"
  by (simp add: unsigned_ucast_eq take_bit_nat_eq_self_iff) (rule order_less_trans [OF unsigned_less], simp)

lemma unat_add_u8: "unat (a + b :: u8) = (unat a + unat b) mod 256"
  by (simp add: unat_word_ariths)

lemma unat_add_u16: "unat (a + b :: u16) = (unat a + unat b) mod 65536"
  by (simp add: unat_word_ariths)

lemma unat_shr1: "unat (drop_bit 1 (v :: u8)) = unat v div 2"
  by (simp add: drop_bit_eq_div unat_div)

lemma unat_shl1: "unat (push_bit 1 (v :: u8)) = (2 * unat v) mod 256"
  by (simp add: unat_word_ariths mult.commute)

lemma even_unat_u8: "even (unat (v :: u8)) \<longleftrightarrow> even v"
  using bit_unsigned_iff [of v 0, where ?'a = nat] by (simp add: bit_0)

lemma lsb_u8: "(v :: u8) AND 1 = (if odd (unat v) then 1 else 0)"
  by (simp add: and_one_eq mod_2_eq_odd even_unat_u8)

lemma msb_u8: "drop_bit 7 (v :: u8) = (if 128 \<le> unat v then 1 else 0)"
proof -
  have "unat v < 256" using unsigned_less [of v, where ?'a = nat] by simp
  then have "unat v div 128 = (if 128 \<le> unat v then 1 else 0)" by auto
  then have "unat (drop_bit 7 v) = unat (if 128 \<le> unat v then 1 else 0 :: u8)"
    by (simp add: drop_bit_eq_div unat_div)
  then show ?thesis by (simp only: word_unat_eq_iff)
qed

lemma unat_shr1_Suc: "unat (drop_bit (Suc 0) (v :: u8)) = unat v div 2"
  using unat_shr1 [of v] by simp

lemma unat_shl1_Suc: "unat ((v :: u8) * 2) = (2 * unat v) mod 256"
  using unat_shl1 [of v] by simp

subsection \<open>8xy4\<close>

text \<open>With \<open>x\<close> and \<open>y\<close> both other than 0xF, 8xy4 sets \<open>V[0xF]\<close> to the carry of the
  registers as they were, and \<open>V[x]\<close> to the low 8 bits of their sum.\<close>

lemma add_carry:
  assumes "fetch s = Inr w" and "op_of w = 0x8" and "n_of w = 0x4"
    and "x = unat (x_of w)" and "y = unat (y_of w)" and "x \<noteq> 15" and "y \<noteq> 15"
  shows "\<exists>s'. executeCycle rnd s = Inr s'
           \<and> V s' 15 = (if unat (V s x) + unat (V s y) > 255 then 1 else 0)
           \<and> unat (V s' x) = (unat (V s x) + unat (V s y)) mod 256
           \<and> PC s' = PC s + 2"
  using assms
  by (simp add: executeCycle_def dispatch_def Let_def update_timers_eq unat_add_u8)

text \<open>
  C2 at \<open>y = 0xF\<close>. The carry is written to \<open>V[0xF]\<close> before the sum is formed, and the
  sum reads \<open>V[0xF]\<close> again: with \<open>V[0] = 1\<close> and \<open>V[0xF] = 5\<close>, 80F4 leaves
  \<open>V[0] = 1\<close> (1 plus the carry 0), where the sum of the registers as they were is 6.
\<close>

theorem add_reads_flag_as_operand:
  "executeCycle 0 add_vf_state
     = Inr (add_vf_state\<lparr>V := (V add_vf_state)(15 := 0, 0 := 1), PC := 0x202\<rparr>)"
proof -
  have f: "fetch add_vf_state = Inr 0x80F4"
    by (simp add: add_vf_state_def blank_def fetch_def MEM_NBYTES_def)
  show ?thesis
    by (simp add: executeCycle_def f dispatch_def op_of_def n_of_def x_of_def y_of_def
                  update_timers_def)
       (simp add: add_vf_state_def blank_def)
qed

subsection \<open>Fx1E\<close>

text \<open>With \<open>x\<close> other than 0xF, Fx1E sets \<open>V[0xF]\<close> to 1 iff \<open>I + V[x]\<close> exceeds 0xFFF,
  and \<open>I\<close> to the sum modulo \<open>2^16\<close>.\<close>

lemma add_i_flag:
  assumes "fetch s = Inr w" and "op_of w = 0xF" and "kk_of w = 0x1E"
    and "x = unat (x_of w)" and "x \<noteq> 15"
  shows "\<exists>s'. executeCycle rnd s = Inr s'
           \<and> V s' 15 = (if unat (I s) + unat (V s x) > 0xFFF then 1 else 0)
           \<and> unat (I s') = (unat (I s) + unat (V s x)) mod 65536
           \<and> PC s' = PC s + 2"
  using assms
  by (simp add: executeCycle_def dispatch_def Let_def update_timers_eq unat_add_u16
                unat_ucast_u8_u16)

text \<open>
  C8 at \<open>x = 0xF\<close>. The flag is written to \<open>V[0xF]\<close> before \<open>I += V[x]\<close> reads it: with
  \<open>I = 0x10\<close> and \<open>V[0xF] = 5\<close>, FF1E leaves \<open>I = 0x10\<close> (0x10 plus the flag 0), where
  \<open>I\<close> plus the register as it was is 0x15.
\<close>

theorem add_i_reads_flag_as_operand:
  "executeCycle 0 add_i_vf_state
     = Inr (add_i_vf_state\<lparr>V := (V add_i_vf_state)(15 := 0), PC := 0x202\<rparr>)"
proof -
  have f: "fetch add_i_vf_state = Inr 0xFF1E"
    by (simp add: add_i_vf_state_def blank_def fetch_def MEM_NBYTES_def)
  show ?thesis
    by (simp add: executeCycle_def f dispatch_def op_of_def kk_of_def x_of_def
                  update_timers_def)
       (simp add: add_i_vf_state_def blank_def)
qed

subsection \<open>The shifts\<close>

lemma dispatch_shr:
  assumes "op_of w = 0x8" and "n_of w = 0x6"
  shows "dispatch w rnd s =
           Inr (Fallthrough (s\<lparr>V := ((V s)(15 := V s (unat (x_of w)) AND 1))
                  (unat (x_of w) := drop_bit 1 (((V s)(15 := V s (unat (x_of w)) AND 1)) (unat (x_of w)))),
                PC := PC s + 2\<rparr>))"
  using assms by (simp add: dispatch_def Let_def)

lemma dispatch_shl:
  assumes "op_of w = 0x8" and "n_of w = 0xE"
  shows "dispatch w rnd s =
           Inr (Fallthrough (s\<lparr>V := ((V s)(15 := drop_bit 7 (V s (unat (x_of w)))))
                  (unat (x_of w) := push_bit 1 (((V s)(15 := drop_bit 7 (V s (unat (x_of w))))) (unat (x_of w)))),
                PC := PC s + 2\<rparr>))"
  using assms by (simp add: dispatch_def Let_def)

subsection \<open>Fx0A with a key pressed\<close>

text \<open>Once any key is pressed the scan keeps writing its index to \<open>V[x]\<close>, up to the
  last index: \<open>V[x]\<close> ends as 15 whichever key it was.\<close>

lemma fx0a_key_pressed:
  assumes "fetch s = Inr w" and "op_of w = 0xF" and "kk_of w = 0x0A"
    and "i < 16" and "keys s i"
  shows "executeCycle rnd s = Inr (update_timers (s\<lparr>V := (V s)(unat (x_of w) := 15), PC := PC s + 2\<rparr>))"
  using assms(1-3) scan_keys_some [OF assms(4,5)]
  by (simp add: executeCycle_def dispatch_def)

text \<open>
  C4 with key 3 pressed alone: F00A leaves \<open>V[0] = 15\<close>, not the pressed key 3;
  \<open>PC\<close> advances by 2.
\<close>

theorem fx0a_stores_15:
  "executeCycle 0 key3_state = Inr (key3_state\<lparr>V := (V key3_state)(0 := 15), PC := 0x202\<rparr>)"
proof -
  have f: "fetch key3_state = Inr 0xF00A"
    by (simp add: key3_state_def blank_def fetch_def MEM_NBYTES_def)
  have o: "op_of 0xF00A = 0xF" "kk_of 0xF00A = 0x0A" "unat (x_of 0xF00A) = 0"
    by (simp_all add: op_of_def kk_of_def x_of_def)
  have k: "keys key3_state 3" by (simp add: key3_state_def)
  from fx0a_key_pressed [OF f o(1,2) _ k, of 0] show ?thesis
    by (simp add: o update_timers_def) (simp add: key3_state_def blank_def)
qed

subsection \<open>The sprite loops as a list of pixel flips\<close>

lemma mask_bit: "drop_bit k ((b :: u8) AND push_bit k 1) = of_bool (bit b k)"
  by (rule bit_eqI) (auto simp: bit_simps dest: bit_imp_le_length)

lemma mask_bit_nonzero: "(drop_bit k ((b :: u8) AND push_bit k 1) \<noteq> 0) = bit b k"
  unfolding mask_bit by simp

lemma pixel_bit: "pixel d i = bit (d (i div 8)) (7 - i mod 8)"
  unfolding pixel_def mask_bit by simp

lemma bit_xor_mask:
  "k < 8 \<Longrightarrow> bit ((w :: u8) XOR push_bit k (of_bool v)) m = (bit w m \<noteq> (v \<and> m = k))"
  by (auto simp: bit_simps)

lemma draw_bit_plot:
  "draw_bit b pxRow startCol col s = plot (pxRow * 64 + (startCol + col) mod 64) (bit b (7 - col)) s"
  unfolding draw_bit_def plot_def Let_def mask_bit pixel_bit
  by (cases "bit b (7 - col)"; cases "bit (display s ((pxRow * 64 + (startCol + col) mod 64) div 8))
         (7 - (pxRow * 64 + (startCol + col) mod 64) mod 8)") simp_all

lemma plots_Nil: "plots [] s = s"
  and plots_Cons: "plots ((j, v) # hs) s = plots hs (plot j v s)"
  and plots_append: "plots (hs @ hs') s = plots hs' (plots hs s)"
  by (simp_all add: plots_def)

lemma pixel_plot: "pixel (display (plot j0 v s)) j = (pixel (display s) j \<noteq> (v \<and> j = j0))"
proof (cases "j div 8 = j0 div 8")
  case True
  have k: "7 - j0 mod 8 < 8" by simp
  have "(7 - j mod 8 = 7 - j0 mod 8) = (j = j0)"
  proof -
    have "j mod 8 < 8" "j0 mod 8 < 8" by simp_all
    then have "(7 - j mod 8 = 7 - j0 mod 8) = (j mod 8 = j0 mod 8)" by arith
    also have "\<dots> = (j = j0)"
      using True by (metis div_mult_mod_eq)
    finally show ?thesis .
  qed
  then show ?thesis
    by (simp add: pixel_bit plot_def True bit_xor_mask [OF k])
next
  case False
  then have "j \<noteq> j0" by auto
  with False show ?thesis
    by (simp add: pixel_bit plot_def)
qed

lemma V_plot:
  "V (plot j v s) i = (if i = 15 then V s 15 OR of_bool (pixel (display s) j \<and> v) else V s i)"
  by (simp add: plot_def)

lemma plot_keeps:
  "DT (plot j v s) = DT s" "ST (plot j v s) = ST s" "SP (plot j v s) = SP s" "I (plot j v s) = I s"
  "stack (plot j v s) = stack s" "keys (plot j v s) = keys s" "memory (plot j v s) = memory s"
  "PC (plot j v s) = PC s" "draw (plot j v s) = draw s"
  by (simp_all add: plot_def)

lemma of_bool_or: "(of_bool a :: u8) OR of_bool b = of_bool (a \<or> b)"
  by (cases a; cases b) simp_all

lemma plots_pixel:
  "distinct (map fst hs) \<Longrightarrow>
   pixel (display (plots hs s)) j = (pixel (display s) j \<noteq> ((j, True) \<in> set hs))"
proof (induction hs arbitrary: s)
  case Nil
  then show ?case by (simp add: plots_Nil)
next
  case (Cons h hs)
  obtain j0 v where h: "h = (j0, v)" by (cases h)
  from Cons.prems h have fresh: "j0 \<notin> fst ` set hs" and d: "distinct (map fst hs)" by simp_all
  from fresh have nothit: "(j0, True) \<notin> set hs" by force
  from Cons.IH [OF d, of "plot j0 v s"] nothit show ?case
    by (auto simp: h plots_Cons pixel_plot)
qed

lemma plots_flag:
  "distinct (map fst hs) \<Longrightarrow>
   V (plots hs s) 15 = V s 15 OR of_bool (\<exists>j. (j, True) \<in> set hs \<and> pixel (display s) j)"
proof (induction hs arbitrary: s)
  case Nil
  then show ?case by (simp add: plots_Nil)
next
  case (Cons h hs)
  obtain j0 v where h: "h = (j0, v)" by (cases h)
  from Cons.prems h have fresh: "j0 \<notin> fst ` set hs" and d: "distinct (map fst hs)" by simp_all
  have same: "(\<exists>j. (j, True) \<in> set hs \<and> pixel (display (plot j0 v s)) j)
              = (\<exists>j. (j, True) \<in> set hs \<and> pixel (display s) j)"
    using fresh by (force simp: pixel_plot)
  have "V (plots (h # hs) s) 15
          = (V s 15 OR of_bool (pixel (display s) j0 \<and> v))
              OR of_bool (\<exists>j. (j, True) \<in> set hs \<and> pixel (display s) j)"
    using Cons.IH [OF d, of "plot j0 v s"] by (simp add: h plots_Cons V_plot same)
  also have "\<dots> = V s 15 OR of_bool ((pixel (display s) j0 \<and> v)
                      \<or> (\<exists>j. (j, True) \<in> set hs \<and> pixel (display s) j))"
    by (simp add: or.assoc of_bool_or)
  also have "((pixel (display s) j0 \<and> v) \<or> (\<exists>j. (j, True) \<in> set hs \<and> pixel (display s) j))
             = (\<exists>j. (j, True) \<in> set (h # hs) \<and> pixel (display s) j)"
    by (auto simp: h)
  finally show ?case .
qed

lemma plots_V: "i \<noteq> 15 \<Longrightarrow> V (plots hs s) i = V s i"
  by (induction hs arbitrary: s) (auto simp: plots_Nil plots_Cons V_plot)

lemma plots_keeps:
  "DT (plots hs s) = DT s" "ST (plots hs s) = ST s" "SP (plots hs s) = SP s"
  "I (plots hs s) = I s" "stack (plots hs s) = stack s" "keys (plots hs s) = keys s"
  "memory (plots hs s) = memory s" "PC (plots hs s) = PC s" "draw (plots hs s) = draw s"
  by (induction hs arbitrary: s) (auto simp: plots_Nil plots_Cons plot_keeps)

lemma sprite_bit_bit: "sprite_bit s row col = bit (memory s (unat (I s) + row)) (7 - col)"
  unfolding sprite_bit_def mask_bit by simp

lemma draw_bit_plot_fun:
  "draw_bit b pxRow startCol
     = (\<lambda>col. plot (pxRow * 64 + (startCol + col) mod 64) (bit b (7 - col)))"
  by (intro ext) (rule draw_bit_plot)

lemma draw_byte_plots:
  "draw_byte (memory s (unat (I s) + row)) ((startRow + row) mod 32) startCol s
     = plots (row_hits s startCol startRow row) s"
  by (simp add: draw_byte_def plots_def row_hits_def fold_map comp_def draw_bit_plot_fun
                bit_index_def sprite_bit_bit)

lemma row_hits_cong:
  "memory s' = memory s \<Longrightarrow> I s' = I s \<Longrightarrow> row_hits s' c r row = row_hits s c r row"
  by (simp add: row_hits_def sprite_bit_def)

lemma sprite_hits_cong:
  assumes "memory s' = memory s" and "I s' = I s"
  shows "sprite_hits s' c r rows = sprite_hits s c r rows"
proof -
  have "row_hits s' c r = row_hits s c r"
    by (rule ext) (rule row_hits_cong [OF assms])
  then show ?thesis by (simp add: sprite_hits_def)
qed

lemma draw_rows_plots:
  "\<forall>row\<in>set rows. unat (I s) + row < MEM_NBYTES \<Longrightarrow>
   draw_rows c r rows s = Inr (plots (sprite_hits s c r rows) s)"
proof (induction rows arbitrary: s)
  case Nil
  then show ?case by (simp add: sprite_hits_def plots_Nil)
next
  case (Cons row rows)
  let ?s1 = "plots (row_hits s c r row) s"
  have keep: "memory ?s1 = memory s" "I ?s1 = I s" by (simp_all add: plots_keeps)
  from Cons.prems have "\<forall>row\<in>set rows. unat (I ?s1) + row < MEM_NBYTES"
    by (simp add: keep)
  from Cons.IH [OF this] have "draw_rows c r rows ?s1 = Inr (plots (sprite_hits s c r rows) ?s1)"
    by (simp add: sprite_hits_cong [OF keep])
  with Cons.prems show ?case
    by (simp add: draw_byte_plots sprite_hits_def plots_append)
qed

lemma draw_rows_fault:
  "\<exists>row\<in>set rows. \<not> unat (I s) + row < MEM_NBYTES \<Longrightarrow> draw_rows c r rows s = Inl OutOfBounds"
proof (induction rows arbitrary: s)
  case Nil
  then show ?case by simp
next
  case (Cons row rows)
  show ?case
  proof (cases "unat (I s) + row < MEM_NBYTES")
    case True
    let ?s1 = "draw_byte (memory s (unat (I s) + row)) ((r + row) mod 32) c s"
    from True Cons.prems have "\<exists>row\<in>set rows. \<not> unat (I ?s1) + row < MEM_NBYTES"
      by (simp add: draw_byte_keeps)
    from Cons.IH [OF this] True show ?thesis by simp
  next
    case False
    then show ?thesis by simp
  qed
qed

lemma mod_add_inj_le:
  assumes "(s + a) mod m = (s + b) mod m" and "a \<le> b" and "b < (m::nat)"
  shows "a = b"
proof -
  have "s + a \<le> s + b" using assms(2) by simp
  from mod_eq_dvd_iff_nat [OF this, of m] assms(1)
  have "m dvd (s + b) - (s + a)" by simp
  then have "m dvd b - a" by simp
  moreover have "b - a < m" using assms(3) by simp
  ultimately have "b - a = 0"
    using nat_dvd_not_less [of "b - a" m] by auto
  with assms(2) show ?thesis by simp
qed

lemma mod_add_inj:
  assumes "(s + a) mod m = (s + b) mod m" and "a < m" and "b < (m::nat)"
  shows "a = b"
proof (cases "a \<le> b")
  case True
  from mod_add_inj_le [OF assms(1) True assms(3)] show ?thesis .
next
  case False
  then have "b \<le> a" by simp
  from mod_add_inj_le [OF assms(1) [symmetric] this assms(2)] show ?thesis by simp
qed

lemma bit_index_inj:
  assumes "bit_index c r row col = bit_index c r row' col'"
    and "row < 32" "row' < 32" "col < 64" "col' < 64"
  shows "row = row' \<and> col = col'"
proof -
  let ?a = "(r + row) mod 32" and ?a' = "(r + row') mod 32"
  let ?b = "(c + col) mod 64" and ?b' = "(c + col') mod 64"
  have eq: "?a * 64 + ?b = ?a' * 64 + ?b'"
    using assms(1) by (simp add: bit_index_def)
  have "(?a * 64 + ?b) mod 64 = ?b" "(?a' * 64 + ?b') mod 64 = ?b'" by simp_all
  with eq have b: "?b = ?b'" by metis
  with eq have a: "?a = ?a'" by simp
  from a assms(2,3) have "row = row'" by (rule mod_add_inj)
  moreover from b assms(4,5) have "col = col'" by (rule mod_add_inj)
  ultimately show ?thesis ..
qed

lemma hit_iff:
  "(j, True) \<in> set (sprite_hits s c r [0..<n])
     \<longleftrightarrow> (\<exists>row<n. \<exists>col<8. j = bit_index c r row col \<and> sprite_bit s row col)"
proof
  assume "(j, True) \<in> set (sprite_hits s c r [0..<n])"
  then obtain row col where "row < n" "col < 8" "j = bit_index c r row col" "sprite_bit s row col"
    by (auto simp: sprite_hits_def row_hits_def)
  then show "\<exists>row<n. \<exists>col<8. j = bit_index c r row col \<and> sprite_bit s row col"
    by blast
next
  assume "\<exists>row<n. \<exists>col<8. j = bit_index c r row col \<and> sprite_bit s row col"
  then obtain row col where rc: "row < n" "col < 8" "j = bit_index c r row col" "sprite_bit s row col"
    by blast
  then have "(j, True) \<in> set (row_hits s c r row)"
    by (simp add: row_hits_def image_iff) (rule bexI [of _ col], simp_all)
  with rc(1) show "(j, True) \<in> set (sprite_hits s c r [0..<n])"
    by (auto simp: sprite_hits_def)
qed

lemma map_fst_sprite_hits:
  "map fst (sprite_hits s c r rows)
     = map (\<lambda>(row, col). bit_index c r row col) (List.product rows [0..<8])"
  by (induction rows) (simp_all add: sprite_hits_def row_hits_def comp_def)

lemma distinct_sprite_hits:
  assumes "n \<le> 32"
  shows "distinct (map fst (sprite_hits s c r [0..<n]))"
proof -
  have "inj_on (\<lambda>(row, col). bit_index c r row col) (set (List.product [0..<n] [0..<8]))"
  proof (rule inj_onI, clarsimp)
    fix row col row' col'
    assume "row < n" "col < 8" "row' < n" "col' < 8"
      and "bit_index c r row col = bit_index c r row' col'"
    with assms bit_index_inj [of c r row col row' col']
    show "row = row' \<and> col = col'" by simp
  qed
  then show ?thesis
    by (simp add: map_fst_sprite_hits distinct_map distinct_product)
qed

lemma n_of_less: "unat (n_of w) < 16"
proof -
  have "unat (w AND 15) \<le> unat (15 :: u16)"
    by (rule word_and_le1 [THEN word_le_nat_alt [THEN iffD1]])
  then have "unat (w AND 15) \<le> 15" by simp
  moreover have "unat (n_of w) = unat (w AND 15) mod 256"
    by (simp add: n_of_def unsigned_ucast_eq take_bit_eq_mod)
  ultimately show ?thesis by simp
qed

lemma sprite_bit_cong:
  "memory s' = memory s \<Longrightarrow> I s' = I s \<Longrightarrow> sprite_bit s' row col = sprite_bit s row col"
  by (simp add: sprite_bit_def)

lemma dispatch_draw:
  assumes "op_of w = 0xD" and "unat (I s) + unat (n_of w) \<le> MEM_NBYTES"
    and "s1 = s\<lparr>V := (V s)(15 := 0)\<rparr>"
    and "c = unat (V s1 (unat (x_of w)))" and "r = unat (V s1 (unat (y_of w)))"
  shows "dispatch w rnd s =
           Inr (Fallthrough ((plots (sprite_hits s c r [0..<unat (n_of w)]) s1)
                               \<lparr>draw := True, PC := PC s + 2\<rparr>))"
proof -
  have keep: "memory s1 = memory s" "I s1 = I s" by (simp_all add: assms(3))
  have "\<forall>row\<in>set [0..<unat (n_of w)]. unat (I s1) + row < MEM_NBYTES"
    using assms(2) by (auto simp: keep)
  from draw_rows_plots [OF this, of c r]
  have "draw_rows c r [0..<unat (n_of w)] s1
          = Inr (plots (sprite_hits s c r [0..<unat (n_of w)]) s1)"
    by (simp add: sprite_hits_cong [OF keep])
  then show ?thesis
    using assms(1) by (simp add: dispatch_def Let_def assms(3-5) [symmetric] plots_keeps)
       (simp add: assms(3))
qed

subsection \<open>Dxyn\<close>

text \<open>What a Dxyn cycle does, for every \<open>x\<close> and \<open>y\<close>. The start coordinates are read
  after \<open>V[0xF]\<close> was set to 0, so a coordinate register 0xF counts as 0. Each of the
  \<open>n * 8\<close> sprite bits is XORed into the pixel at row \<open>(startRow + row) mod 32\<close> and
  column \<open>(startCol + col) mod 64\<close>; \<open>V[0xF]\<close> ends as 1 iff a set sprite bit met a lit
  pixel; the draw flag is set, \<open>PC\<close> advances by 2 and the timers tick.\<close>

lemma draw_sprite:
  assumes "fetch s = Inr w" and "op_of w = 0xD"
    and "unat (I s) + unat (n_of w) \<le> MEM_NBYTES"
    and "n = unat (n_of w)"
    and "c = unat (((V s)(15 := 0)) (unat (x_of w)))"
    and "r = unat (((V s)(15 := 0)) (unat (y_of w)))"
  shows "\<exists>s'. executeCycle rnd s = Inr s'
           \<and> (\<forall>j. pixel (display s') j
                  = (pixel (display s) j
                       \<noteq> (\<exists>row<n. \<exists>col<8. j = bit_index c r row col \<and> sprite_bit s row col)))
           \<and> V s' 15 = of_bool (\<exists>row<n. \<exists>col<8.
                  sprite_bit s row col \<and> pixel (display s) (bit_index c r row col))
           \<and> (\<forall>i. i \<noteq> 15 \<longrightarrow> V s' i = V s i)
           \<and> draw s' \<and> PC s' = PC s + 2
           \<and> I s' = I s \<and> memory s' = memory s \<and> SP s' = SP s \<and> stack s' = stack s
           \<and> keys s' = keys s \<and> DT s' = tick (DT s) \<and> ST s' = tick (ST s)"
proof -
  define s1 where "s1 = s\<lparr>V := (V s)(15 := 0)\<rparr>"
  define hs where "hs = sprite_hits s c r [0..<n]"
  define s2 where "s2 = plots hs s1"
  define s' where "s' = update_timers (s2\<lparr>draw := True, PC := PC s + 2\<rparr>)"
  have c: "c = unat (V s1 (unat (x_of w)))" and r: "r = unat (V s1 (unat (y_of w)))"
    by (simp_all add: s1_def assms(5,6))
  from dispatch_draw [OF assms(2,3) s1_def c r, of rnd] assms(1)
  have run: "executeCycle rnd s = Inr s'"
    by (simp add: executeCycle_def s'_def s2_def hs_def assms(4))
  have "n \<le> 32" using n_of_less [of w] assms(4) by simp
  then have dist: "distinct (map fst hs)"
    unfolding hs_def by (rule distinct_sprite_hits)
  have px: "pixel (display s') j
              = (pixel (display s) j
                   \<noteq> (\<exists>row<n. \<exists>col<8. j = bit_index c r row col \<and> sprite_bit s row col))" for j
    using plots_pixel [OF dist, of s1 j]
    by (simp add: s'_def s2_def update_timers_eq hs_def hit_iff s1_def)
  have "(\<exists>j. (j, True) \<in> set hs \<and> pixel (display s) j)
          = (\<exists>row<n. \<exists>col<8. sprite_bit s row col \<and> pixel (display s) (bit_index c r row col))"
    unfolding hs_def hit_iff by blast
  with plots_flag [OF dist, of s1]
  have vf: "V s' 15 = of_bool (\<exists>row<n. \<exists>col<8.
              sprite_bit s row col \<and> pixel (display s) (bit_index c r row col))"
    by (simp add: s'_def s2_def update_timers_eq s1_def)
  have vi: "V s' i = V s i" if "i \<noteq> 15" for i
    using plots_V [OF that, of hs s1] that
    by (simp add: s'_def s2_def update_timers_eq s1_def)
  have rest: "draw s'" "PC s' = PC s + 2" "I s' = I s" "memory s' = memory s" "SP s' = SP s"
    "stack s' = stack s" "keys s' = keys s" "DT s' = tick (DT s)" "ST s' = tick (ST s)"
    by (simp_all add: s'_def s2_def update_timers_eq plots_keeps s1_def)
  from run px vf vi rest show ?thesis by blast
qed

text \<open>With \<open>x\<close> and \<open>y\<close> other than 0xF the start coordinates are \<open>V[x]\<close> and \<open>V[y]\<close>
  as the instruction found them.\<close>

lemma draw_sprite_xy:
  assumes "fetch s = Inr w" and "op_of w = 0xD"
    and "unat (I s) + unat (n_of w) \<le> MEM_NBYTES"
    and "n = unat (n_of w)" and "x = unat (x_of w)" and "y = unat (y_of w)"
    and "x \<noteq> 15" and "y \<noteq> 15"
  shows "\<exists>s'. executeCycle rnd s = Inr s'
           \<and> (\<forall>j. pixel (display s') j
                  = (pixel (display s) j
                       \<noteq> (\<exists>row<n. \<exists>col<8.
                             j = ((unat (V s y) + row) mod 32) * 64 + (unat (V s x) + col) mod 64
                             \<and> sprite_bit s row col)))
           \<and> V s' 15 = of_bool (\<exists>row<n. \<exists>col<8. sprite_bit s row col
                  \<and> pixel (display s)
                        (((unat (V s y) + row) mod 32) * 64 + (unat (V s x) + col) mod 64))
           \<and> draw s' \<and> PC s' = PC s + 2"
proof -
  have c: "unat (V s x) = unat (((V s)(15 := 0)) (unat (x_of w)))"
    and r: "unat (V s y) = unat (((V s)(15 := 0)) (unat (y_of w)))"
    using assms(5-8) by simp_all
  from draw_sprite [OF assms(1-4) c r, of rnd] show ?thesis
    unfolding bit_index_def by blast
qed

lemma upt_0_8: "[0..<8] = [0, 1, 2, 3, 4, 5, 6, 7 :: nat]"
  by code_simp

lemma draw_byte_eval:
  "draw_byte b pxRow startCol s =
     draw_bit b pxRow startCol 7 (draw_bit b pxRow startCol 6 (draw_bit b pxRow startCol 5
       (draw_bit b pxRow startCol 4 (draw_bit b pxRow startCol 3 (draw_bit b pxRow startCol 2
         (draw_bit b pxRow startCol 1 (draw_bit b pxRow startCol 0 s)))))))"
  by (simp add: draw_byte_def upt_0_8)

text \<open>
  C1 at \<open>x = 0xF\<close>. The code sets \<open>V[0xF]\<close> to 0 and reads the start column from
  \<open>V[x]\<close> after that: with \<open>V[0xF] = 1\<close>, DF01 draws the sprite 0x80 at column 0
  (byte 0 of the display becomes 0x80), where column \<open>(V[x] + 0) mod 64\<close> of the
  registers as they were is column 1 (byte 0 would be 0x40).
\<close>

theorem draw_reads_cleared_flag:
  "executeCycle 0 draw_vf_state
     = Inr (draw_vf_state\<lparr>V := (V draw_vf_state)(15 := 0),
                          display := (display draw_vf_state)(0 := 0x80),
                          draw := True, PC := 0x202\<rparr>)"
proof -
  have f: "fetch draw_vf_state = Inr 0xDF01"
    by (simp add: draw_vf_state_def blank_def fetch_def MEM_NBYTES_def)
  have u: "[0..<unat (n_of 0xDF01)] = [0]"
    by (simp add: n_of_def)
  show ?thesis
    by (simp add: executeCycle_def f dispatch_def op_of_def x_of_def y_of_def u draw_byte_eval)
       (simp add: draw_bit_def Let_def MEM_NBYTES_def update_timers_def
          draw_vf_state_def blank_def)
qed

subsection \<open>Drawing the same sprite twice\<close>

lemma display_eqI:
  assumes "\<And>j. pixel d j = pixel d' j"
  shows "d = d'"
proof (rule ext, rule bit_eqI)
  fix k m
  assume "possible_bit TYPE(u8) m"
  then have m: "m < 8" by (simp add: possible_bit_def)
  define j where "j = 8 * k + (7 - m)"
  have "7 - m < 8" by simp
  then have jm: "j mod 8 = 7 - m" and jd: "j div 8 = k"
    unfolding j_def by simp_all
  from m have "7 - (7 - m) = m" by arith
  with jm have sh: "7 - j mod 8 = m" by simp
  from assms [of j] show "bit (d k) m = bit (d' k) m"
    unfolding pixel_bit jd sh .
qed

lemma const_upd_same: "(\<lambda>_. c)(k := c) = (\<lambda>_. c)"
  by (rule ext) simp

section \<open>Properties of the machine of main.c\<close>

subsection \<open>Registers as bytes of the union\<close>

lemma get16_set16_same: "get16 (set16 m a v) a = v"
  unfolding get16_def set16_def
  by (rule bit_eqI) (auto simp: bit_simps)

lemma set16_apply:
  "(set16 m a v) b = (if b = a + 1 then ucast (drop_bit 8 v) else if b = a then ucast v else m b)"
  by (simp add: set16_def)

lemma get16_upd_other: "b \<noteq> a \<Longrightarrow> b \<noteq> a + 1 \<Longrightarrow> get16 (m(b := v)) a = get16 m a"
  by (simp add: get16_def)


lemma c_update_timers_eq: "c_update_timers m = m(96 := tick (m 96), 97 := tick (m 97))"
  by (auto simp: c_update_timers_def DT_u_def ST_u_def set_DT_def set_ST_def tick_def Let_def fun_eq_iff)

lemma c_fetch_cong:
  "PC_u m' = PC_u m \<Longrightarrow> m' (unat (PC_u m)) = m (unat (PC_u m))
   \<Longrightarrow> m' (unat (PC_u m) + 1) = m (unat (PC_u m) + 1) \<Longrightarrow> c_fetch m' = c_fetch m"
  by (simp add: c_fetch_def)


lemma x_of_less: "unat (x_of w) < 16"
proof -
  have "unat (w AND 0x0F00) \<le> unat (0x0F00 :: u16)"
    by (rule word_and_le1 [THEN word_le_nat_alt [THEN iffD1]])
  then have "unat (w AND 0x0F00) \<le> 3840" by simp
  then have "unat (w AND 0x0F00) div 256 < 16" by simp
  moreover have "unat (drop_bit 8 (w AND 0x0F00)) = unat (w AND 0x0F00) div 256"
    by (simp add: drop_bit_eq_div unat_div)
  ultimately show ?thesis
    by (simp add: x_of_def unsigned_ucast_eq take_bit_eq_mod)
qed

lemma ignored_word_c:
  assumes "c_fetch m = Inr w" and "no_branch w"
  shows "chip8_t_emulate_cycle rnd m = Inr (m(96 := tick (m 96), 97 := tick (m 97)))"
proof -
  from assms(2) have "c_dispatch w rnd m = Inr (C_Fallthrough m)"
    by (auto simp: no_branch_def c_dispatch_def)
  with assms(1) show ?thesis
    by (simp add: chip8_t_emulate_cycle_def c_update_timers_eq)
qed

subsection \<open>The cycle after the fetch\<close>

lemma executeCycle_cycle_with:
  "executeCycle rnd s = (case fetch s of Inl f \<Rightarrow> Inl f | Inr w \<Rightarrow> cycle_with w rnd s)"
  by (simp add: executeCycle_def cycle_with_def split: sum.splits)

lemma emulate_cycle_cycle_with:
  "chip8_t_emulate_cycle rnd m = (case c_fetch m of Inl f \<Rightarrow> Inl f | Inr w \<Rightarrow> c_cycle_with w rnd m)"
  by (simp add: chip8_t_emulate_cycle_def c_cycle_with_def split: sum.splits)

lemma cycle_with_shift:
  assumes "op_of w = 0x8" and "n_of w \<in> {0x6, 0xE}" and "x = unat (x_of w)"
  shows "cycle_with w rnd s =
           Inr (update_timers (s\<lparr>V :=
                  (if n_of w = 0x6
                   then ((V s)(15 := V s x AND 1))(x := drop_bit 1 (((V s)(15 := V s x AND 1)) x))
                   else ((V s)(15 := drop_bit 7 (V s x)))
                           (x := push_bit 1 (((V s)(15 := drop_bit 7 (V s x))) x))),
                PC := PC s + 2\<rparr>))"
proof (cases "n_of w = 0x6")
  case True
  with assms show ?thesis by (simp add: cycle_with_def dispatch_shr)
next
  case False
  with assms(2) have "n_of w = 0xE" by simp
  with assms show ?thesis by (simp add: cycle_with_def dispatch_shl)
qed

lemma c_cycle_with_shift:
  assumes "op_of w = 0x8" and "n_of w \<in> {0x6, 0xE}" and "x = unat (x_of w)"
  shows "c_cycle_with w rnd m =
           Inr (c_update_timers
                 (let m1 = set_V m 15 (if n_of w = 0x6 then V_u m x AND 1 else drop_bit 7 (V_u m x));
                      m2 = set_V m1 x (if n_of w = 0x6 then drop_bit 1 (V_u m1 x)
                                       else push_bit 1 (V_u m1 x))
                  in set_PC m2 (PC_u m2 + 2)))"
proof (cases "n_of w = 0x6")
  case True
  with assms show ?thesis by (simp add: c_cycle_with_def c_dispatch_def Let_def)
next
  case False
  with assms(2) have "n_of w = 0xE" by simp
  with assms show ?thesis by (simp add: c_cycle_with_def c_dispatch_def Let_def)
qed

subsection \<open>The key scan and the sprite loops of main.c\<close>













subsection \<open>The timers of main.c\<close>





subsection \<open>The sprite loops of main.c as a list of pixel flips\<close>

lemma c_plots_Nil: "c_plots [] m = m"
  and c_plots_Cons: "c_plots ((j, v) # hs) m = c_plots hs (c_plot j v m)"
  and c_plots_append: "c_plots (hs @ hs') m = c_plots hs' (c_plots hs m)"
  by (simp_all add: c_plots_def)

lemma of_bool_xor_zero: "((of_bool a :: u8) XOR of_bool b = 0) = (a = b)"
  by (cases a; cases b) simp_all

lemma c_draw_bit_plot:
  "c_draw_bit b pxRow startCol col m
     = c_plot (pxRow * 64 + (startCol + col) mod 64) (bit b (7 - col)) m"
  unfolding c_draw_bit_def c_plot_def Let_def mask_bit pixel_bit of_bool_xor_zero
  by (cases "bit b (7 - col)"; cases "bit (display_u m ((pxRow * 64 + (startCol + col) mod 64) div 8))
         (7 - (pxRow * 64 + (startCol + col) mod 64) mod 8)") simp_all

lemma c_draw_bit_plot_fun:
  "c_draw_bit b pxRow startCol
     = (\<lambda>col. c_plot (pxRow * 64 + (startCol + col) mod 64) (bit b (7 - col)))"
  by (rule ext, rule ext) (rule c_draw_bit_plot)

lemma c_plot_apply:
  "c_plot j v m a =
     (if a = 95 then m 95 OR of_bool (pixel (display_u m) j \<and> v)
      else if a = 136 + j div 8
           then m (136 + j div 8) XOR push_bit (7 - j mod 8) (of_bool v)
      else m a)"
  by (simp add: c_plot_def Let_def set_V_def set_display_def V_u_def display_u_def)

lemma agree_plot:
  assumes "display s = display_u m" and "V s 15 = V_u m 15"
  shows "display (plot j v s) = display_u (c_plot j v m) \<and> V (plot j v s) 15 = V_u (c_plot j v m) 15"
proof
  have d: "display s k = m (136 + k)" for k
    using assms(1) by (simp add: display_u_def)
  show "display (plot j v s) = display_u (c_plot j v m)"
    by (rule ext) (simp add: plot_def display_u_def c_plot_apply d)
  show "V (plot j v s) 15 = V_u (c_plot j v m) 15"
    using assms by (simp add: plot_def V_u_def c_plot_apply)
qed

lemma agree_plots:
  assumes "display s = display_u m" and "V s 15 = V_u m 15"
  shows "display (plots hs s) = display_u (c_plots hs m) \<and> V (plots hs s) 15 = V_u (c_plots hs m) 15"
  using assms
proof (induction hs arbitrary: s m)
  case Nil
  then show ?case by (simp add: plots_Nil c_plots_Nil)
next
  case (Cons h hs)
  obtain j v where h: "h = (j, v)" by (cases h)
  from agree_plot [OF Cons.prems, of j v] Cons.IH [of "plot j v s" "c_plot j v m"]
  show ?case by (simp add: h plots_Cons c_plots_Cons)
qed

lemma c_plots_pixel:
  assumes "distinct (map fst hs)"
  shows "pixel (display_u (c_plots hs m)) j = (pixel (display_u m) j \<noteq> ((j, True) \<in> set hs))"
proof -
  have a: "display (view m) = display_u m" "V (view m) 15 = V_u m 15"
    by (simp_all add: view_def)
  from agree_plots [OF a, of hs] plots_pixel [OF assms, of "view m" j] show ?thesis
    by (simp add: view_def)
qed

lemma c_plots_flag:
  assumes "distinct (map fst hs)"
  shows "V_u (c_plots hs m) 15
           = V_u m 15 OR of_bool (\<exists>j. (j, True) \<in> set hs \<and> pixel (display_u m) j)"
proof -
  have a: "display (view m) = display_u m" "V (view m) 15 = V_u m 15"
    by (simp_all add: view_def)
  from agree_plots [OF a, of hs] plots_flag [OF assms, of "view m"] show ?thesis
    by (simp add: view_def)
qed

lemma c_plots_other:
  assumes "\<forall>h\<in>set hs. fst h < 2048" and "a \<noteq> 95" and "a < 136 \<or> 392 \<le> a"
  shows "c_plots hs m a = m a"
  using assms(1)
proof (induction hs arbitrary: m)
  case Nil
  then show ?case by (simp add: c_plots_Nil)
next
  case (Cons h hs)
  obtain j v where h: "h = (j, v)" by (cases h)
  with Cons.prems have "j < 2048" by simp
  then have "j div 8 < 256" by simp
  with assms(2,3) have "c_plot j v m a = m a"
    by (auto simp: c_plot_apply)
  with Cons show ?case by (simp add: h c_plots_Cons)
qed

lemma bit_index_less: "bit_index c r row col < 2048"
proof -
  have "(r + row) mod 32 \<le> 31" "(c + col) mod 64 < 64" by simp_all
  then have "(r + row) mod 32 * 64 + (c + col) mod 64 < 31 * 64 + 64"
    by (meson add_le_less_mono mult_le_mono1)
  then show ?thesis by (simp add: bit_index_def)
qed

lemma row_hits_less: "\<forall>h\<in>set (row_hits s c r row). fst h < 2048"
  by (auto simp: row_hits_def bit_index_less)

lemma sprite_hits_less: "\<forall>h\<in>set (sprite_hits s c r rows). fst h < 2048"
  by (auto simp: sprite_hits_def row_hits_def bit_index_less)

lemma c_draw_byte_plots:
  assumes "b = memory s (unat (I s) + row)"
  shows "c_draw_byte b ((r + row) mod 32) c m = c_plots (row_hits s c r row) m"
  by (simp add: c_draw_byte_def c_plots_def row_hits_def fold_map comp_def c_draw_bit_plot_fun
                bit_index_def sprite_bit_bit assms)

lemma I_u_c_plots:
  assumes "\<forall>h\<in>set hs. fst h < 2048"
  shows "I_u (c_plots hs m) = I_u m"
  by (simp add: I_u_def get16_def c_plots_other [OF assms])

lemma c_draw_rows_plots:
  assumes "I_u m = I s"
    and "\<forall>row\<in>set rows. unat (I s) + row < MEM_NBYTES \<and> unat (I s) + row \<noteq> 95
           \<and> (unat (I s) + row < 136 \<or> 392 \<le> unat (I s) + row)
           \<and> m (unat (I s) + row) = memory s (unat (I s) + row)"
  shows "c_draw_rows c r rows m = Inr (c_plots (sprite_hits s c r rows) m)"
  using assms
proof (induction rows arbitrary: m)
  case Nil
  then show ?case by (simp add: sprite_hits_def c_plots_Nil)
next
  case (Cons row rows)
  let ?m1 = "c_plots (row_hits s c r row) m"
  from Cons.prems have here: "unat (I s) + row < MEM_NBYTES"
    "m (unat (I s) + row) = memory s (unat (I s) + row)"
    by simp_all
  have i1: "I_u ?m1 = I s"
    using I_u_c_plots [OF row_hits_less] Cons.prems(1) by simp
  have "\<forall>row\<in>set rows. unat (I s) + row < MEM_NBYTES \<and> unat (I s) + row \<noteq> 95
           \<and> (unat (I s) + row < 136 \<or> 392 \<le> unat (I s) + row)
           \<and> ?m1 (unat (I s) + row) = memory s (unat (I s) + row)"
    using Cons.prems(2) by (auto simp: c_plots_other [OF row_hits_less])
  from Cons.IH [OF i1 this]
  have "c_draw_rows c r rows ?m1 = Inr (c_plots (sprite_hits s c r rows) ?m1)" .
  then show ?case
    using here Cons.prems(1)
    by (simp add: c_draw_byte_plots [of _ s row] sprite_hits_def c_plots_append)
qed

lemma pixel_cong: "d (j div 8) = d' (j div 8) \<Longrightarrow> pixel d j = pixel d' j"
  by (simp add: pixel_def)

subsection \<open>Dxyn in main.c\<close>

lemma c_draw_sprite:
  assumes "c_fetch m = Inr w" and "op_of w = 0xD"
    and "n = unat (n_of w)"
    and "unat (I_u m) + n \<le> MEM_NBYTES"
    and "unat (I_u m) + n \<le> 80 \<or> 409 \<le> unat (I_u m)"
    and "c = unat (if unat (x_of w) = 15 then 0 else V_u m (unat (x_of w)))"
    and "r = unat (if unat (y_of w) = 15 then 0 else V_u m (unat (y_of w)))"
  shows "\<exists>m'. chip8_t_emulate_cycle rnd m = Inr m'
           \<and> (\<forall>j<2048. pixel (display_u m') j
                  = (pixel (display_u m) j
                       \<noteq> (\<exists>row<n. \<exists>col<8. j = bit_index c r row col \<and> sprite_bit (view m) row col)))
           \<and> V_u m' 15 = of_bool (\<exists>row<n. \<exists>col<8.
                  sprite_bit (view m) row col \<and> pixel (display_u m) (bit_index c r row col))
           \<and> (\<forall>i<15. V_u m' i = V_u m i)
           \<and> I_u m' = I_u m \<and> PC_u m' = PC_u m + 2
           \<and> (\<forall>a. a < 80 \<or> 409 \<le> a \<longrightarrow> m' a = m a)"
proof -
  define m1 where "m1 = set_V m 15 0"
  define hs where "hs = sprite_hits (view m) c r [0..<n]"
  define m2 where "m2 = c_plots hs m1"
  define m3 where "m3 = set_draw_flag m2 1"
  define m' where "m' = c_update_timers (set_PC m3 (PC_u m3 + 2))"
  have less: "\<forall>h\<in>set hs. fst h < 2048"
    unfolding hs_def by (rule sprite_hits_less)
  have m1: "m1 a = (if a = 95 then 0 else m a)" for a
    by (simp add: m1_def set_V_def)
  have m2: "m2 a = m1 a" if "a \<noteq> 95" "a < 136 \<or> 392 \<le> a" for a
    unfolding m2_def by (rule c_plots_other [OF less that])
  have m': "m' a = (if a = 96 then tick (m2 96) else if a = 97 then tick (m2 97)
                    else if a = 100 then ucast (get16 m2 100 + 2)
                    else if a = 101 then ucast (drop_bit 8 (get16 m2 100 + 2))
                    else if a = 392 then 1 else m2 a)" for a
    by (simp add: m'_def m3_def c_update_timers_eq set_PC_def PC_u_def set16_apply
                  set_draw_flag_def get16_upd_other)
  have c: "c = unat (V_u m1 (unat (x_of w)))" and r: "r = unat (V_u m1 (unat (y_of w)))"
    by (simp_all add: assms(6,7) V_u_def m1)
  have i1: "I_u m1 = I (view m)"
    by (simp add: I_u_def get16_def m1 view_def)
  have "\<forall>row\<in>set [0..<n]. unat (I (view m)) + row < MEM_NBYTES \<and> unat (I (view m)) + row \<noteq> 95
           \<and> (unat (I (view m)) + row < 136 \<or> 392 \<le> unat (I (view m)) + row)
           \<and> m1 (unat (I (view m)) + row) = memory (view m) (unat (I (view m)) + row)"
    using assms(4,5) by (auto simp: view_def m1)
  from c_draw_rows_plots [OF i1 this, of c r]
  have rows: "c_draw_rows c r [0..<n] m1 = Inr m2"
    by (simp add: m2_def hs_def)
  have run: "chip8_t_emulate_cycle rnd m = Inr m'"
    using assms(1,2) rows
    by (simp add: chip8_t_emulate_cycle_def c_dispatch_def Let_def m1_def [symmetric]
                  c [symmetric] r [symmetric] assms(3) [symmetric] m'_def m3_def)
  have "n \<le> 32" using n_of_less [of w] assms(3) by simp
  then have dist: "distinct (map fst hs)"
    unfolding hs_def by (rule distinct_sprite_hits)
  have d1: "pixel (display_u m1) j = pixel (display_u m) j" for j
    by (rule pixel_cong) (simp add: display_u_def m1)
  have px: "pixel (display_u m') j
              = (pixel (display_u m) j
                   \<noteq> (\<exists>row<n. \<exists>col<8. j = bit_index c r row col \<and> sprite_bit (view m) row col))"
    if "j < 2048" for j
  proof -
    from that have "j div 8 < 256" by simp
    then have "display_u m' (j div 8) = display_u m2 (j div 8)"
      by (simp add: display_u_def m')
    then have "pixel (display_u m') j = pixel (display_u m2) j"
      by (rule pixel_cong)
    also have "\<dots> = (pixel (display_u m1) j \<noteq> ((j, True) \<in> set hs))"
      unfolding m2_def by (rule c_plots_pixel [OF dist])
    finally show ?thesis
      by (simp add: d1 hs_def hit_iff)
  qed
  have "(\<exists>j. (j, True) \<in> set hs \<and> pixel (display_u m1) j)
          = (\<exists>row<n. \<exists>col<8. sprite_bit (view m) row col
               \<and> pixel (display_u m) (bit_index c r row col))"
    unfolding hs_def hit_iff d1 by blast
  with c_plots_flag [OF dist, of m1]
  have vf: "V_u m' 15 = of_bool (\<exists>row<n. \<exists>col<8.
              sprite_bit (view m) row col \<and> pixel (display_u m) (bit_index c r row col))"
    by (simp add: V_u_def m' m2_def [symmetric] m1)
  have vi: "V_u m' i = V_u m i" if "i < 15" for i
    using that by (simp add: V_u_def m' m2 m1)
  have ii: "I_u m' = I_u m"
    by (simp add: I_u_def get16_def m' m2 m1)
  have pc: "PC_u m' = PC_u m + 2"
  proof -
    have "get16 m2 100 = PC_u m"
      by (simp add: PC_u_def get16_def m2 m1)
    moreover have "PC_u m' = get16 (set16 m' 100 (get16 m2 100 + 2)) 100"
      by (simp add: PC_u_def get16_def m' set16_apply)
    ultimately show ?thesis by (simp add: get16_set16_same)
  qed
  have out: "m' a = m a" if "a < 80 \<or> 409 \<le> a" for a
    using that by (auto simp: m' m2 m1)
  from run px vf vi ii pc out show ?thesis by blast
qed

subsection \<open>Drawing the same sprite twice, on either machine\<close>

lemma display_bytes_eqI:
  assumes "\<And>j. j < 2048 \<Longrightarrow> pixel d j = pixel d' j" and "k < 256"
  shows "d k = d' k"
proof (rule bit_eqI)
  fix b
  assume "possible_bit TYPE(u8) b"
  then have b: "b < 8" by (simp add: possible_bit_def)
  define j where "j = 8 * k + (7 - b)"
  have "7 - b < 8" by simp
  then have jm: "j mod 8 = 7 - b" and jd: "j div 8 = k"
    unfolding j_def by simp_all
  from b have "7 - (7 - b) = b" by arith
  with jm have sh: "7 - j mod 8 = b" by simp
  have "j < 2048" using assms(2) unfolding j_def by simp
  from assms(1) [OF this] show "bit (d k) b = bit (d' k) b"
    unfolding pixel_bit jd sh .
qed

lemma y_of_less: "unat (y_of w) < 16"
proof -
  have "unat (w AND 0x00F0) \<le> unat (0x00F0 :: u16)"
    by (rule word_and_le1 [THEN word_le_nat_alt [THEN iffD1]])
  then have "unat (w AND 0x00F0) \<le> 240" by simp
  then have "unat (w AND 0x00F0) div 16 < 16" by simp
  moreover have "unat (drop_bit 4 (w AND 0x00F0)) = unat (w AND 0x00F0) div 16"
    by (simp add: drop_bit_eq_div unat_div)
  ultimately show ?thesis
    by (simp add: y_of_def unsigned_ucast_eq take_bit_eq_mod)
qed

lemma redraw_cc:
  assumes "fetch s = Inr w" and "op_of w = 0xD"
    and "unat (I s) + unat (n_of w) \<le> MEM_NBYTES"
    and "n = unat (n_of w)"
    and "c = unat (((V s)(15 := 0)) (unat (x_of w)))"
    and "r = unat (((V s)(15 := 0)) (unat (y_of w)))"
  shows "\<exists>s1. executeCycle rnd1 s = Inr s1
           \<and> (fetch s1 = Inr w \<longrightarrow>
                (\<exists>s2. executeCycle rnd2 s1 = Inr s2
                   \<and> display s2 = display s
                   \<and> V s2 15 = of_bool (\<exists>row<n. \<exists>col<8.
                          sprite_bit s row col \<and> \<not> pixel (display s) (bit_index c r row col))))"
proof -
  let ?H = "\<lambda>j. \<exists>row<n. \<exists>col<8. j = bit_index c r row col \<and> sprite_bit s row col"
  from draw_sprite [OF assms(1-6), of rnd1] obtain s1 where
    run1: "executeCycle rnd1 s = Inr s1"
    and px1: "\<And>j. pixel (display s1) j = (pixel (display s) j \<noteq> ?H j)"
    and v1: "\<And>i. i \<noteq> 15 \<Longrightarrow> V s1 i = V s i"
    and keep: "I s1 = I s" "memory s1 = memory s"
    by blast
  have second: "\<exists>s2. executeCycle rnd2 s1 = Inr s2
                   \<and> display s2 = display s
                   \<and> V s2 15 = of_bool (\<exists>row<n. \<exists>col<8.
                          sprite_bit s row col \<and> \<not> pixel (display s) (bit_index c r row col))"
    if f1: "fetch s1 = Inr w"
  proof -
    have i1: "unat (I s1) + unat (n_of w) \<le> MEM_NBYTES"
      using assms(3) by (simp add: keep)
    have c1: "c = unat (((V s1)(15 := 0)) (unat (x_of w)))"
      and r1: "r = unat (((V s1)(15 := 0)) (unat (y_of w)))"
      by (simp_all add: assms(5,6) v1)
    have sb: "sprite_bit s1 row col = sprite_bit s row col" for row col
      by (rule sprite_bit_cong) (simp_all add: keep)
    from draw_sprite [OF f1 assms(2) i1 assms(4) c1 r1, of rnd2] obtain s2 where
      run2: "executeCycle rnd2 s1 = Inr s2"
      and px2: "\<And>j. pixel (display s2) j = (pixel (display s1) j \<noteq> ?H j)"
      and v2: "V s2 15 = of_bool (\<exists>row<n. \<exists>col<8.
                 sprite_bit s row col \<and> pixel (display s1) (bit_index c r row col))"
      unfolding sb by blast
    have twice: "((a \<noteq> h) \<noteq> h) = a" for a h :: bool by auto
    have "display s2 = display s"
      by (rule display_eqI) (simp only: px2 px1 twice)
    moreover have "(\<exists>row<n. \<exists>col<8. sprite_bit s row col \<and> pixel (display s1) (bit_index c r row col))
          = (\<exists>row<n. \<exists>col<8. sprite_bit s row col \<and> \<not> pixel (display s) (bit_index c r row col))"
      unfolding px1 by blast
    ultimately show ?thesis using run2 v2 by auto
  qed
  with run1 show ?thesis by blast
qed

lemma redraw_c:
  assumes "c_fetch m = Inr w" and "op_of w = 0xD"
    and "n = unat (n_of w)"
    and "unat (I_u m) + n \<le> MEM_NBYTES"
    and "unat (I_u m) + n \<le> 80 \<or> 409 \<le> unat (I_u m)"
    and "c = unat (if unat (x_of w) = 15 then 0 else V_u m (unat (x_of w)))"
    and "r = unat (if unat (y_of w) = 15 then 0 else V_u m (unat (y_of w)))"
  shows "\<exists>m1. chip8_t_emulate_cycle rnd1 m = Inr m1
           \<and> (c_fetch m1 = Inr w \<longrightarrow>
                (\<exists>m2. chip8_t_emulate_cycle rnd2 m1 = Inr m2
                   \<and> (\<forall>k<256. display_u m2 k = display_u m k)
                   \<and> V_u m2 15 = of_bool (\<exists>row<n. \<exists>col<8. sprite_bit (view m) row col
                          \<and> \<not> pixel (display_u m) (bit_index c r row col))))"
proof -
  let ?H = "\<lambda>j. \<exists>row<n. \<exists>col<8. j = bit_index c r row col \<and> sprite_bit (view m) row col"
  from c_draw_sprite [OF assms, of rnd1] obtain m1 where
    run1: "chip8_t_emulate_cycle rnd1 m = Inr m1"
    and px1: "\<And>j. j < 2048 \<Longrightarrow> pixel (display_u m1) j = (pixel (display_u m) j \<noteq> ?H j)"
    and v1: "\<And>i. i < 15 \<Longrightarrow> V_u m1 i = V_u m i"
    and keep: "I_u m1 = I_u m"
    and out: "\<And>a. a < 80 \<or> 409 \<le> a \<Longrightarrow> m1 a = m a"
    by blast
  have second: "\<exists>m2. chip8_t_emulate_cycle rnd2 m1 = Inr m2
                   \<and> (\<forall>k<256. display_u m2 k = display_u m k)
                   \<and> V_u m2 15 = of_bool (\<exists>row<n. \<exists>col<8. sprite_bit (view m) row col
                          \<and> \<not> pixel (display_u m) (bit_index c r row col))"
    if f1: "c_fetch m1 = Inr w"
  proof -
    have x: "unat (x_of w) < 16" and y: "unat (y_of w) < 16"
      by (rule x_of_less, rule y_of_less)
    have c1: "c = unat (if unat (x_of w) = 15 then 0 else V_u m1 (unat (x_of w)))"
      using x by (simp add: assms(6) v1)
    have r1: "r = unat (if unat (y_of w) = 15 then 0 else V_u m1 (unat (y_of w)))"
      using y by (simp add: assms(7) v1)
    have sb: "sprite_bit (view m1) row col = sprite_bit (view m) row col" if "row < n" for row col
    proof -
      from that assms(5) have "unat (I_u m) + row < 80 \<or> 409 \<le> unat (I_u m) + row" by auto
      from out [OF this] show ?thesis
        by (simp add: sprite_bit_def view_def keep)
    qed
    from c_draw_sprite [OF f1 assms(2,3) _ _ c1 r1, of rnd2] assms(4,5) obtain m2 where
      run2: "chip8_t_emulate_cycle rnd2 m1 = Inr m2"
      and px2: "\<And>j. j < 2048 \<Longrightarrow> pixel (display_u m2) j
                  = (pixel (display_u m1) j
                       \<noteq> (\<exists>row<n. \<exists>col<8. j = bit_index c r row col \<and> sprite_bit (view m1) row col))"
      and v2: "V_u m2 15 = of_bool (\<exists>row<n. \<exists>col<8. sprite_bit (view m1) row col
                 \<and> pixel (display_u m1) (bit_index c r row col))"
      unfolding keep by blast
    have H1: "(\<exists>row<n. \<exists>col<8. j = bit_index c r row col \<and> sprite_bit (view m1) row col) = ?H j" for j
      using sb by auto
    have twice: "((a \<noteq> h) \<noteq> h) = a" for a h :: bool by auto
    have "pixel (display_u m2) j = pixel (display_u m) j" if "j < 2048" for j
      using px2 [OF that] px1 [OF that] by (simp only: H1 twice)
    then have disp: "\<forall>k<256. display_u m2 k = display_u m k"
      using display_bytes_eqI [of "display_u m2" "display_u m"] by blast
    have "(\<exists>row<n. \<exists>col<8. sprite_bit (view m1) row col \<and> pixel (display_u m1) (bit_index c r row col))
          = (\<exists>row<n. \<exists>col<8. sprite_bit (view m) row col
               \<and> \<not> pixel (display_u m) (bit_index c r row col))"
      using sb px1 [OF bit_index_less] by (auto; blast)
    with run2 disp v2 show ?thesis by auto
  qed
  with run1 show ?thesis by blast
qed

subsection \<open>Timers, call and return on either machine\<close>






section \<open>Properties of both machines\<close>

text \<open>
  Each of the following theorems has two conjuncts: the first is about
  \<open>executeCycle\<close> of main.cc, the second about \<open>chip8_t_emulate_cycle\<close> of main.c.
\<close>

subsection \<open>Call and return\<close>



subsection \<open>The timer update\<close>




subsection \<open>Words that no branch takes\<close>

text \<open>
  C7 (as the code has it). For every instruction word that no branch of the if-chain
  takes (family 0 with \<open>n\<close> not 0 or E, family 8 with \<open>n\<close> not 0..7 or E, family E with
  \<open>kk\<close> not 9E or A1, family F with \<open>kk\<close> none of 07, 0A, 15, 18, 1E, 29, 33, 55, 65)
  the cycle completes and changes nothing but the timers, which each go down by 1 if
  nonzero. In main.cc \<open>PC\<close>, \<open>V\<close>, \<open>I\<close>, \<open>SP\<close>, the stack, the memory, the display, the
  keys and the draw flag are as before. In main.c the timers are bytes 96 and 97 of the
  memory: the union after the cycle is the union before it with these two bytes
  ticked, so that \<open>PC\<close>, \<open>V\<close>, \<open>I\<close>, \<open>SP\<close>, the stack, the display, the keys, the draw
  flag and every other byte of the memory are as before.
\<close>

theorem no_branch_only_ticks:
  "(fetch s = Inr w \<and> no_branch w
    \<longrightarrow> executeCycle rnd s = Inr (s\<lparr>DT := tick (DT s), ST := tick (ST s)\<rparr>))
   \<and> (c_fetch m = Inr w \<and> no_branch w
    \<longrightarrow> chip8_t_emulate_cycle rnd m = Inr (set_ST (set_DT m (tick (DT_u m))) (tick (ST_u m))))"
proof (rule conjI; rule impI; elim conjE)
  assume f: "fetch s = Inr w" and n: "no_branch w"
  from n have "dispatch w rnd s = Inr (Fallthrough s)"
    by (auto simp: no_branch_def dispatch_def)
  with f show "executeCycle rnd s = Inr (s\<lparr>DT := tick (DT s), ST := tick (ST s)\<rparr>)"
    by (simp add: executeCycle_def update_timers_eq)
next
  assume f: "c_fetch m = Inr w" and n: "no_branch w"
  from ignored_word_c [OF f n, of rnd]
  show "chip8_t_emulate_cycle rnd m = Inr (set_ST (set_DT m (tick (DT_u m))) (tick (ST_u m)))"
    by (simp add: set_ST_def set_DT_def DT_u_def ST_u_def)
qed

theorem no_branch_only_ticks_witness:
  "no_branch 0xE123
   \<and> executeCycle 0 bad_word_state = Inr (bad_word_state\<lparr>DT := 1\<rparr>)
   \<and> chip8_t_emulate_cycle 0 c_bad_word_state = Inr (set_ST (set_DT c_bad_word_state 1) 0)"
proof -
  have f: "fetch bad_word_state = Inr 0xE123"
    by (simp add: bad_word_state_def blank_def fetch_def MEM_NBYTES_def)
  have fc: "c_fetch c_bad_word_state = Inr 0xE123"
    by (simp add: c_bad_word_state_def c_blank_def c_fetch_def PC_u_def get16_def MEM_NBYTES_def)
  have n: "no_branch 0xE123" by (simp add: no_branch_def op_of_def kk_of_def)
  from no_branch_only_ticks [of bad_word_state "0xE123" 0 c_bad_word_state] f fc n
  show ?thesis
    by (simp add: tick_def bad_word_state_def blank_def DT_u_def ST_u_def c_bad_word_state_def
                  c_blank_def)
qed

text \<open>C7 as stated fails: 0x0000 matches no pattern of the table, and the if-chain
  runs it as 00E0, because the family 0 is told apart by \<open>n\<close> alone: the display is
  cleared, the draw flag set, and \<open>PC\<close> advanced.\<close>

theorem zero_word_counterexample:
  "fetch zero_word_state = Inr 0x0000 \<and> \<not> spec_opcode_pattern 0x0000
   \<and> display zero_word_state 0 = 0xFF \<and> PC zero_word_state = 0x200 \<and> \<not> draw zero_word_state
   \<and> executeCycle 0 zero_word_state
       = Inr (zero_word_state\<lparr>display := (\<lambda>_. 0), draw := True, PC := 0x202\<rparr>)"
proof -
  have f: "fetch zero_word_state = Inr 0x0000"
    by (simp add: zero_word_state_def blank_def fetch_def MEM_NBYTES_def)
  have t: "\<not> spec_opcode_pattern 0x0000"
    by (simp add: spec_opcode_pattern_def op_of_def n_of_def kk_of_def)
  have d: "(\<lambda>i. if i < 256 then 0 else display zero_word_state i) = (\<lambda>_. 0::u8)"
    by (auto simp: zero_word_state_def blank_def)
  have e: "executeCycle 0 zero_word_state
             = Inr (zero_word_state\<lparr>display := (\<lambda>_. 0), draw := True, PC := 0x202\<rparr>)"
    by (simp add: executeCycle_def f dispatch_def op_of_def n_of_def d update_timers_def)
       (simp add: zero_word_state_def blank_def)
  from f t e show ?thesis by (simp add: zero_word_state_def blank_def)
qed

subsection \<open>The shifts\<close>

text \<open>
  C10 (as the code has it). The shifts never read the \<open>y\<close> field. A cycle that fetches
  \<open>w\<close> = 8xy6 (or 8xyE) completes, and it ends in the very state in which the cycle ends
  when it runs, on the same state, any word \<open>w'\<close> with the same first, second and last
  nibble in place of the fetched one (\<open>cycle_with\<close>, the cycle after its fetch; the value
  of \<^verbatim>\<open>rand()\<close> plays no role either). For every \<open>x\<close> other than 0xF, \<open>V[0xF]\<close> receives
  the bit shifted out (the least significant for 8xy6, the most significant for 8xyE)
  and \<open>V[x]\<close> the halved (respectively doubled, mod 256) value. This holds for main.cc and
  for main.c.
\<close>

theorem shift_ignores_y:
  "(op_of w = 0x8 \<and> op_of w' = 0x8 \<and> n_of w \<in> {0x6, 0xE} \<and> n_of w' = n_of w
      \<and> x_of w' = x_of w \<and> x = unat (x_of w) \<and> fetch s = Inr w
    \<longrightarrow> (\<exists>s'. executeCycle rnd s = Inr s' \<and> cycle_with w' rnd' s = Inr s'
           \<and> (x \<noteq> 15 \<longrightarrow>
                V s' 15 = (if n_of w = 0x6 then (if odd (unat (V s x)) then 1 else 0)
                           else (if 128 \<le> unat (V s x) then 1 else 0))
                \<and> unat (V s' x) = (if n_of w = 0x6 then unat (V s x) div 2
                                    else (2 * unat (V s x)) mod 256))))
   \<and> (op_of w = 0x8 \<and> op_of w' = 0x8 \<and> n_of w \<in> {0x6, 0xE} \<and> n_of w' = n_of w
      \<and> x_of w' = x_of w \<and> x = unat (x_of w) \<and> c_fetch m = Inr w
    \<longrightarrow> (\<exists>m'. chip8_t_emulate_cycle rnd m = Inr m' \<and> c_cycle_with w' rnd' m = Inr m'
           \<and> (x \<noteq> 15 \<longrightarrow>
                V_u m' 15 = (if n_of w = 0x6 then (if odd (unat (V_u m x)) then 1 else 0)
                             else (if 128 \<le> unat (V_u m x) then 1 else 0))
                \<and> unat (V_u m' x) = (if n_of w = 0x6 then unat (V_u m x) div 2
                                      else (2 * unat (V_u m x)) mod 256))))"
proof (intro conjI impI)
  assume a: "op_of w = 0x8 \<and> op_of w' = 0x8 \<and> n_of w \<in> {0x6, 0xE} \<and> n_of w' = n_of w
      \<and> x_of w' = x_of w \<and> x = unat (x_of w) \<and> fetch s = Inr w"
  then have w: "op_of w = 0x8" "n_of w \<in> {0x6, 0xE}" "x = unat (x_of w)"
    and w': "op_of w' = 0x8" "n_of w' \<in> {0x6, 0xE}" "x = unat (x_of w')" and nn: "n_of w' = n_of w"
    and f: "fetch s = Inr w"
    by simp_all
  show "\<exists>s'. executeCycle rnd s = Inr s' \<and> cycle_with w' rnd' s = Inr s'
           \<and> (x \<noteq> 15 \<longrightarrow>
                V s' 15 = (if n_of w = 0x6 then (if odd (unat (V s x)) then 1 else 0)
                           else (if 128 \<le> unat (V s x) then 1 else 0))
                \<and> unat (V s' x) = (if n_of w = 0x6 then unat (V s x) div 2
                                    else (2 * unat (V s x)) mod 256))"
    using w(2)
    by (auto simp: executeCycle_cycle_with f cycle_with_shift [OF w] cycle_with_shift [OF w'] nn
          update_timers_eq unat_shr1_Suc unat_shl1_Suc lsb_u8 msb_u8)
next
  assume a: "op_of w = 0x8 \<and> op_of w' = 0x8 \<and> n_of w \<in> {0x6, 0xE} \<and> n_of w' = n_of w
      \<and> x_of w' = x_of w \<and> x = unat (x_of w) \<and> c_fetch m = Inr w"
  then have w: "op_of w = 0x8" "n_of w \<in> {0x6, 0xE}" "x = unat (x_of w)"
    and w': "op_of w' = 0x8" "n_of w' \<in> {0x6, 0xE}" "x = unat (x_of w')" and nn: "n_of w' = n_of w"
    and f: "c_fetch m = Inr w"
    by simp_all
  have x: "x < 16" using x_of_less [of w] w(3) by simp
  show "\<exists>m'. chip8_t_emulate_cycle rnd m = Inr m' \<and> c_cycle_with w' rnd' m = Inr m'
           \<and> (x \<noteq> 15 \<longrightarrow>
                V_u m' 15 = (if n_of w = 0x6 then (if odd (unat (V_u m x)) then 1 else 0)
                             else (if 128 \<le> unat (V_u m x) then 1 else 0))
                \<and> unat (V_u m' x) = (if n_of w = 0x6 then unat (V_u m x) div 2
                                      else (2 * unat (V_u m x)) mod 256))"
    using w(2) x
    by (auto simp: emulate_cycle_cycle_with f c_cycle_with_shift [OF w] c_cycle_with_shift [OF w'] nn
          c_update_timers_eq Let_def V_u_def set_V_def set_PC_def set16_apply
          unat_shr1_Suc unat_shl1_Suc lsb_u8 msb_u8)
qed

theorem shift_ignores_y_witness:
  "(\<exists>s'. executeCycle 5 shr_state = Inr s' \<and> cycle_with 0x8346 0 shr_state = Inr s'
        \<and> V s' 15 = 1 \<and> unat (V s' 3) = 66)
   \<and> (\<exists>m'. chip8_t_emulate_cycle 5 c_shr_state = Inr m' \<and> c_cycle_with 0x8346 0 c_shr_state = Inr m'
        \<and> V_u m' 15 = 1 \<and> unat (V_u m' 3) = 66)"
proof -
  have a: "op_of 0x8326 = 0x8" "op_of 0x8346 = 0x8" "n_of 0x8326 \<in> {0x6, 0xE}"
    "n_of 0x8346 = n_of 0x8326" "x_of 0x8346 = x_of 0x8326" "3 = unat (x_of 0x8326)"
    by (simp_all add: op_of_def n_of_def x_of_def)
  have f: "fetch shr_state = Inr 0x8326"
    by (simp add: shr_state_def blank_def fetch_def MEM_NBYTES_def)
  have fc: "c_fetch c_shr_state = Inr 0x8326"
    by (simp add: c_shr_state_def c_blank_def c_fetch_def PC_u_def get16_def MEM_NBYTES_def)
  have v: "V shr_state 3 = 0x85" "V_u c_shr_state 3 = 0x85"
    by (simp_all add: shr_state_def blank_def c_shr_state_def V_u_def)
  have n: "n_of 0x8326 = 0x6" by (simp add: n_of_def)
  from shift_ignores_y [of "0x8326" "0x8346" 3 shr_state 5 0 c_shr_state] a f fc
  show ?thesis
    by (simp add: v n)
qed

text \<open>C10 as stated fails at \<open>x = 0xF\<close>: with \<open>V[0xF] = 3\<close> the bit shifted out by 8F06
  is 1 and the halved value is 1, and the cycle leaves \<open>V[0xF] = 0\<close>: the code stores the
  bit in \<open>V[0xF]\<close> first and then halves that. The cycle also advances \<open>PC\<close> and ticks
  the delay timer.\<close>

theorem shr_vf_counterexample:
  "executeCycle 0 shr_vf_cycle_state
     = Inr (shr_vf_cycle_state\<lparr>V := (V shr_vf_cycle_state)(15 := 0), DT := 4, PC := 0x202\<rparr>)
   \<and> V shr_vf_cycle_state 15 = 3"
proof -
  have f: "fetch shr_vf_cycle_state = Inr 0x8F06"
    by (simp add: shr_vf_cycle_state_def blank_def fetch_def MEM_NBYTES_def)
  show ?thesis
    by (simp add: executeCycle_def f dispatch_def op_of_def n_of_def x_of_def update_timers_def)
       (simp add: shr_vf_cycle_state_def blank_def)
qed

subsection \<open>Drawing the same sprite twice\<close>

text \<open>
  C5 (as the code has it). When a cycle fetches a Dxyn whose \<open>n\<close> sprite bytes are
  addressable, it completes; if the cycle after it fetches the same word, that cycle
  completes too, the display after it is the display before the first draw, and it
  sets \<open>V[0xF]\<close> to 1 iff some set sprite bit fell on a pixel that was off before the
  first draw, that is iff the first draw lit a pixel; otherwise to 0. Both draws use
  the same coordinates (a coordinate register 0xF is read as 0 by both), the same \<open>I\<close>
  and the same sprite bytes. In main.cc this needs no further condition. In main.c the
  sprite bytes must lie outside bytes 80..408 of the memory, where the registers and
  the display are: a draw writes \<open>V[0xF]\<close> and the display, and a sprite lying there
  would change while it is drawn.
\<close>

theorem draw_twice:
  "(fetch s = Inr w \<and> op_of w = 0xD \<and> unat (I s) + unat (n_of w) \<le> MEM_NBYTES
      \<and> n = unat (n_of w)
      \<and> c = unat (((V s)(15 := 0)) (unat (x_of w)))
      \<and> r = unat (((V s)(15 := 0)) (unat (y_of w)))
    \<longrightarrow> (\<exists>s1. executeCycle rnd1 s = Inr s1
           \<and> (fetch s1 = Inr w \<longrightarrow>
                (\<exists>s2. executeCycle rnd2 s1 = Inr s2
                   \<and> display s2 = display s
                   \<and> V s2 15 = of_bool (\<exists>row<n. \<exists>col<8.
                          sprite_bit s row col \<and> \<not> pixel (display s) (bit_index c r row col))))))
   \<and> (c_fetch m = Inr w \<and> op_of w = 0xD \<and> n = unat (n_of w)
      \<and> unat (I_u m) + n \<le> MEM_NBYTES
      \<and> (unat (I_u m) + n \<le> 80 \<or> 409 \<le> unat (I_u m))
      \<and> c' = unat (if unat (x_of w) = 15 then 0 else V_u m (unat (x_of w)))
      \<and> r' = unat (if unat (y_of w) = 15 then 0 else V_u m (unat (y_of w)))
    \<longrightarrow> (\<exists>m1. chip8_t_emulate_cycle rnd1 m = Inr m1
           \<and> (c_fetch m1 = Inr w \<longrightarrow>
                (\<exists>m2. chip8_t_emulate_cycle rnd2 m1 = Inr m2
                   \<and> (\<forall>k<256. display_u m2 k = display_u m k)
                   \<and> V_u m2 15 = of_bool (\<exists>row<n. \<exists>col<8. sprite_bit (view m) row col
                          \<and> \<not> pixel (display_u m) (bit_index c' r' row col))))))"
proof (rule conjI; rule impI; elim conjE)
  assume "fetch s = Inr w" "op_of w = 0xD" "unat (I s) + unat (n_of w) \<le> MEM_NBYTES"
    "n = unat (n_of w)" "c = unat (((V s)(15 := 0)) (unat (x_of w)))"
    "r = unat (((V s)(15 := 0)) (unat (y_of w)))"
  then show "\<exists>s1. executeCycle rnd1 s = Inr s1
           \<and> (fetch s1 = Inr w \<longrightarrow>
                (\<exists>s2. executeCycle rnd2 s1 = Inr s2
                   \<and> display s2 = display s
                   \<and> V s2 15 = of_bool (\<exists>row<n. \<exists>col<8.
                          sprite_bit s row col \<and> \<not> pixel (display s) (bit_index c r row col))))"
    by (rule redraw_cc)
next
  assume "c_fetch m = Inr w" "op_of w = 0xD" "n = unat (n_of w)"
    "unat (I_u m) + n \<le> MEM_NBYTES" "unat (I_u m) + n \<le> 80 \<or> 409 \<le> unat (I_u m)"
    "c' = unat (if unat (x_of w) = 15 then 0 else V_u m (unat (x_of w)))"
    "r' = unat (if unat (y_of w) = 15 then 0 else V_u m (unat (y_of w)))"
  then show "\<exists>m1. chip8_t_emulate_cycle rnd1 m = Inr m1
           \<and> (c_fetch m1 = Inr w \<longrightarrow>
                (\<exists>m2. chip8_t_emulate_cycle rnd2 m1 = Inr m2
                   \<and> (\<forall>k<256. display_u m2 k = display_u m k)
                   \<and> V_u m2 15 = of_bool (\<exists>row<n. \<exists>col<8. sprite_bit (view m) row col
                          \<and> \<not> pixel (display_u m) (bit_index c' r' row col))))"
    by (rule redraw_c)
qed

theorem draw_twice_witness:
  "(\<exists>s1 s2. executeCycle 0 sprite_state = Inr s1 \<and> fetch s1 = Inr 0xD011
        \<and> executeCycle 0 s1 = Inr s2
        \<and> display s2 = display sprite_state \<and> V s2 15 = 1)
   \<and> (\<exists>m1 m2. chip8_t_emulate_cycle 0 c_sprite_state = Inr m1 \<and> c_fetch m1 = Inr 0xD011
        \<and> chip8_t_emulate_cycle 0 m1 = Inr m2
        \<and> (\<forall>k<256. display_u m2 k = display_u c_sprite_state k) \<and> V_u m2 15 = 1)"
proof -
  have f: "fetch sprite_state = Inr 0xD011"
    by (simp add: sprite_state_def blank_def fetch_def MEM_NBYTES_def)
  have fc: "c_fetch c_sprite_state = Inr 0xD011"
    by (simp add: c_sprite_state_def c_blank_def c_fetch_def PC_u_def get16_def MEM_NBYTES_def)
  have o: "op_of 0xD011 = 0xD" by (simp add: op_of_def)
  have n: "unat (n_of 0xD011) = 1" by (simp add: n_of_def)
  have xy: "unat (x_of 0xD011) = 0" "unat (y_of 0xD011) = 1"
    by (simp_all add: x_of_def y_of_def)
  have i: "unat (I sprite_state) + unat (n_of 0xD011) \<le> MEM_NBYTES"
    by (simp add: n sprite_state_def blank_def MEM_NBYTES_def)
  have iu: "unat (I_u c_sprite_state) = 0x300"
    by (simp add: c_sprite_state_def c_blank_def I_u_def get16_def)
  have ic: "unat (I_u c_sprite_state) + 1 \<le> MEM_NBYTES"
    "unat (I_u c_sprite_state) + 1 \<le> 80 \<or> 409 \<le> unat (I_u c_sprite_state)"
    by (simp_all add: iu MEM_NBYTES_def)
  have v: "V sprite_state = (\<lambda>_. 0)" "V_u c_sprite_state 0 = 0" "V_u c_sprite_state (Suc 0) = 0"
    by (simp_all add: sprite_state_def blank_def c_sprite_state_def c_blank_def V_u_def)
  have h: "\<exists>row<1. \<exists>col<8. sprite_bit sprite_state row col
          \<and> \<not> pixel (display sprite_state) (bit_index 0 0 row col)"
    by (intro exI [of _ 0] conjI)
       (simp_all add: sprite_bit_bit pixel_bit bit_index_def sprite_state_def blank_def)
  have sb: "sprite_bit (view c_sprite_state) 0 0"
    by (simp add: sprite_bit_bit view_def iu) (simp add: c_sprite_state_def c_blank_def)
  have px: "\<not> pixel (display_u c_sprite_state) (bit_index 0 0 0 0)"
    by (simp add: pixel_bit bit_index_def display_u_def c_sprite_state_def c_blank_def)
  from sb px
  have hc: "\<exists>row<1. \<exists>col<8. sprite_bit (view c_sprite_state) row col
          \<and> \<not> pixel (display_u c_sprite_state) (bit_index 0 0 row col)"
    by (intro exI [of _ 0] conjI) simp_all
  from draw_sprite [OF f o i refl refl refl, of 0]
  obtain s1 where r1: "executeCycle 0 sprite_state = Inr s1"
    and p1: "PC s1 = PC sprite_state + 2" "memory s1 = memory sprite_state"
    by blast
  have f1: "fetch s1 = Inr 0xD011"
    by (simp add: fetch_def p1 sprite_state_def blank_def MEM_NBYTES_def)
  from c_draw_sprite [OF fc o n [symmetric] ic refl refl, of 0]
  obtain m1 where rc1: "chip8_t_emulate_cycle 0 c_sprite_state = Inr m1"
    and pc1: "PC_u m1 = PC_u c_sprite_state + 2" "\<forall>a. a < 80 \<or> 409 \<le> a \<longrightarrow> m1 a = c_sprite_state a"
    by blast
  have "PC_u c_sprite_state = 0x200"
    by (simp add: c_sprite_state_def c_blank_def PC_u_def get16_def)
  with pc1(1) have pcv: "PC_u m1 = 0x202" by simp
  have fc1: "c_fetch m1 = Inr 0xD011"
    by (simp add: c_fetch_def pcv pc1(2) MEM_NBYTES_def c_sprite_state_def c_blank_def)
  from draw_twice [of sprite_state "0xD011" 1 0 0 0 0 c_sprite_state 0 0] f fc o n i ic r1 f1 rc1 fc1
    h hc
  show ?thesis
    by (simp add: v xy iu)
qed

text \<open>C5 as stated fails in its second part: the first draw of the sprite 0x80 on an
  empty display reports no collision, and the second draw, which erases the pixel
  again, reports one (\<open>V[0xF] = 1\<close>).\<close>

theorem second_draw_counterexample:
  "executeCycle 0 sprite_state = Inr sprite_drawn_state
   \<and> V sprite_drawn_state 15 = 0
   \<and> executeCycle 0 sprite_drawn_state
       = Inr (sprite_drawn_state\<lparr>V := (V sprite_drawn_state)(15 := 1),
                                  display := (display sprite_state), PC := 0x204\<rparr>)"
proof -
  have f: "fetch sprite_state = Inr 0xD011"
    by (simp add: sprite_state_def blank_def fetch_def MEM_NBYTES_def)
  have f2: "fetch sprite_drawn_state = Inr 0xD011"
    by (simp add: sprite_drawn_state_def sprite_state_def blank_def fetch_def MEM_NBYTES_def)
  have u: "[0..<unat (n_of 0xD011)] = [0]"
    by (simp add: n_of_def)
  have 1: "executeCycle 0 sprite_state = Inr sprite_drawn_state"
    by (simp add: executeCycle_def f dispatch_def op_of_def x_of_def y_of_def u draw_byte_eval)
       (simp add: draw_bit_def Let_def MEM_NBYTES_def update_timers_def
          sprite_drawn_state_def sprite_state_def blank_def)
  have 2: "executeCycle 0 sprite_drawn_state
       = Inr (sprite_drawn_state\<lparr>V := (V sprite_drawn_state)(15 := 1),
                                  display := (display sprite_state), PC := 0x204\<rparr>)"
    by (simp add: executeCycle_def f2 dispatch_def op_of_def x_of_def y_of_def u draw_byte_eval)
       (simp add: draw_bit_def Let_def MEM_NBYTES_def update_timers_def const_upd_same
          sprite_drawn_state_def sprite_state_def blank_def)
  have 3: "V sprite_drawn_state 15 = 0" by (simp add: sprite_drawn_state_def)
  from 1 2 3 show ?thesis by simp
qed

end
